theory Spec2Isabelle
  imports Complex_Main "HOL-Library.Finite_Map"
begin

section \<open>Python values used by the handbook assistant\<close>

text \<open>
  The embedding follows \<^verbatim>\<open>src/utils.py\<close>, \<^verbatim>\<open>src/ingest.py\<close>, \<^verbatim>\<open>src/ask.py\<close> and
  \<^verbatim>\<open>src/config.py\<close>. Python integers are \<^typ>\<open>int\<close>, lengths and list positions are
  \<^typ>\<open>nat\<close>. A finite Python float is the \<^typ>\<open>real\<close> number it denotes, and float
  arithmetic rounds its exact result to the nearest double. A Python string is the list
  of the code points of its characters.
\<close>

datatype py_error =
  ValueError | IndexError | KeyError | ZeroDivisionError | OverflowError | AssertionError

subsection \<open>Double-precision floats\<close>

text \<open>
  \<open>binade x\<close> is the exponent \<open>e\<close> with \<open>2^e \<le> x < 2^(e+1)\<close> of a positive number, found
  by halving or doubling.
\<close>

function bexp_up :: "real \<Rightarrow> int" where
  "bexp_up x = (if x < 2 then 0 else bexp_up (x / 2) + 1)"
  by pat_completeness auto
termination
proof (relation "measure (\<lambda>x. nat \<lfloor>x\<rfloor>)")
  show "wf (measure (\<lambda>x::real. nat \<lfloor>x\<rfloor>))" by simp
next
  fix x :: real
  assume "\<not> x < 2"
  then have "x / 2 \<le> x - 1" by simp
  then have "\<lfloor>x / 2\<rfloor> \<le> \<lfloor>x - 1\<rfloor>" by (rule floor_mono)
  moreover have "1 \<le> \<lfloor>x - 1\<rfloor>" using \<open>\<not> x < 2\<close> by (simp add: le_floor_iff)
  ultimately show "(x / 2, x) \<in> measure (\<lambda>x. nat \<lfloor>x\<rfloor>)" by simp
qed

function bexp_down :: "real \<Rightarrow> int" where
  "bexp_down x = (if x \<le> 0 \<or> 1 \<le> x then 0 else bexp_down (2 * x) - 1)"
  by pat_completeness auto
termination
proof (relation "measure (\<lambda>x. nat \<lceil>1 / x\<rceil>)")
  show "wf (measure (\<lambda>x::real. nat \<lceil>1 / x\<rceil>))" by simp
next
  fix x :: real
  assume "\<not> (x \<le> 0 \<or> 1 \<le> x)"
  then have x: "0 < x" "x < 1" by auto
  then have "1 < 1 / x" by simp
  then have c2: "2 \<le> \<lceil>1 / x\<rceil>" by (simp add: le_ceiling_iff)
  have "1 / (2 * x) = (1 / x) / 2" by simp
  also have "\<dots> \<le> real_of_int \<lceil>1 / x\<rceil> / 2" by (simp add: divide_right_mono)
  also have "\<dots> \<le> real_of_int (\<lceil>1 / x\<rceil> - 1)" using c2 by simp
  finally have "\<lceil>1 / (2 * x)\<rceil> \<le> \<lceil>1 / x\<rceil> - 1" by (rule ceiling_le)
  with c2 x show "(2 * x, x) \<in> measure (\<lambda>x. nat \<lceil>1 / x\<rceil>)" by simp
qed

declare bexp_up.simps [simp del] bexp_down.simps [simp del]

definition binade :: "real \<Rightarrow> int" where
  "binade x = (if 1 \<le> x then bexp_up x else bexp_down x)"

definition pow2 :: "int \<Rightarrow> real" where
  "pow2 e = (if 0 \<le> e then 2 ^ nat e else 1 / 2 ^ nat (- e))"

definition round_half_even :: "real \<Rightarrow> int" where
  "round_half_even x =
     (let f = \<lfloor>x\<rfloor>; d = x - real_of_int f
      in if d < 1/2 then f else if 1/2 < d then f + 1 else if even f then f else f + 1)"

text \<open>
  Rounding to the nearest double, ties to the even significand: 53 significant bits, and
  the fixed spacing \<open>2^-1074\<close> below the smallest normal number. A result of magnitude
  \<open>2^1024\<close> (the constant \<open>DBL_LIMIT\<close>, written out) or more does not exist as a finite
  double.
\<close>

definition double_round :: "real \<Rightarrow> real" where
  "double_round x =
     (if x = 0 then 0
      else (let u = pow2 (max (binade \<bar>x\<bar>) (- 1022) - 52)
            in u * real_of_int (round_half_even (x / u))))"

definition DBL_LIMIT :: real where
  "DBL_LIMIT =
     179769313486231590772930519078902473361797697894230657273430081157732675805500963132708477322407536021120113879871393357658789768814416622492847430639474124377767893424865485276302219601246094119453082952085005768838150682342462881473913110540827237163350510684586298239947245938479716304835356329624224137216"

text \<open>
  The conversion of an integer operand to a float raises \<^verbatim>\<open>OverflowError\<close> when the
  integer is too large.
\<close>

definition py_float :: "int \<Rightarrow> py_error + real" where
  "py_float n =
     (let c = double_round (real_of_int n)
      in if DBL_LIMIT \<le> \<bar>c\<bar> then Inl OverflowError else Inr c)"

text \<open>The product of two finite floats; \<open>None\<close> is an infinity.\<close>

definition float_mul :: "real \<Rightarrow> real \<Rightarrow> real option" where
  "float_mul a b =
     (let p = double_round (a * b) in if DBL_LIMIT \<le> \<bar>p\<bar> then None else Some p)"

text \<open>\<^verbatim>\<open>int(x)\<close> on a finite float truncates towards zero; on an infinity it raises.\<close>

definition py_int :: "real \<Rightarrow> int" where
  "py_int x = (if 0 \<le> x then \<lfloor>x\<rfloor> else \<lceil>x\<rceil>)"

definition int_of_float :: "real option \<Rightarrow> py_error + int" where
  "int_of_float x = (case x of None \<Rightarrow> Inl OverflowError | Some p \<Rightarrow> Inr (py_int p))"

text \<open>
  \<^verbatim>\<open>n * x\<close> for an integer \<open>n\<close> and a float \<open>x\<close>: the integer is converted first, and
  the product is a float or an infinity.
\<close>

definition int_float_mul :: "int \<Rightarrow> real \<Rightarrow> py_error + real option" where
  "int_float_mul n x = (case py_float n of Inl e \<Rightarrow> Inl e | Inr c \<Rightarrow> Inr (float_mul c x))"

text \<open>\<^verbatim>\<open>int(n * x)\<close>.\<close>

definition int_of_product :: "int \<Rightarrow> real \<Rightarrow> py_error + int" where
  "int_of_product n x =
     (case int_float_mul n x of Inl e \<Rightarrow> Inl e | Inr p \<Rightarrow> int_of_float p)"

subsection \<open>Lists\<close>

text \<open>
  A slice bound is clamped into \<open>0..len\<close>; a negative bound counts from the end.
  \<^verbatim>\<open>xs[lo:hi]\<close> is empty when the clamped bounds cross.
\<close>

definition py_clamp :: "nat \<Rightarrow> int \<Rightarrow> nat" where
  "py_clamp n j = (if j < 0 then nat (max 0 (int n + j)) else min n (nat j))"

definition py_slice :: "'a list \<Rightarrow> int \<Rightarrow> int \<Rightarrow> 'a list" where
  "py_slice xs lo hi =
     (let a = py_clamp (length xs) lo; b = py_clamp (length xs) hi
      in take (b - a) (drop a xs))"

text \<open>
  Reading \<^verbatim>\<open>xs[i]\<close>: positions \<open>0..len-1\<close> read forwards, positions \<open>-len..-1\<close> read
  backwards from the last element, and every other position is an \<^verbatim>\<open>IndexError\<close>.
\<close>

definition py_getitem :: "'a list \<Rightarrow> int \<Rightarrow> py_error + 'a" where
  "py_getitem xs i =
     (if 0 \<le> i \<and> i < int (length xs) then Inr (xs ! nat i)
      else if i < 0 \<and> - int (length xs) \<le> i then Inr (xs ! nat (int (length xs) + i))
      else Inl IndexError)"

section \<open>String operations\<close>

type_synonym ustring = "int list"

text \<open>An ASCII literal as a Python string.\<close>

definition ustr :: "string \<Rightarrow> ustring" where
  "ustr s = map of_char s"

text \<open>
  The characters that \<^verbatim>\<open>str.split()\<close>, \<^verbatim>\<open>str.strip()\<close> and the pattern \<^verbatim>\<open>\s\<close> treat as
  whitespace: tab to carriage return, the four separators U+001C to U+001F, the space,
  U+0085, U+00A0, U+1680, U+2000 to U+200A, U+2028, U+2029, U+202F, U+205F and U+3000.
\<close>

definition is_space :: "int \<Rightarrow> bool" where
  "is_space c =
     ((9 \<le> c \<and> c \<le> 13) \<or> (28 \<le> c \<and> c \<le> 32) \<or> c = 133 \<or> c = 160 \<or> c = 5760
      \<or> (8192 \<le> c \<and> c \<le> 8202) \<or> c = 8232 \<or> c = 8233 \<or> c = 8239 \<or> c = 8287
      \<or> c = 12288)"

text \<open>
  The other character classes come from the Unicode database of the interpreter, which is
  not part of the repository: the decimal digits (the pattern \<^verbatim>\<open>\d\<close>) and the upper-case,
  lower-case and title-case characters (\<^verbatim>\<open>str.isupper\<close>). They are a parameter of
  everything that reads them.
\<close>

record char_tables =
  decimal :: "int \<Rightarrow> bool"
  uppercase :: "int \<Rightarrow> bool"
  lowercase :: "int \<Rightarrow> bool"
  titlecase :: "int \<Rightarrow> bool"

text \<open>The range \<^verbatim>\<open>[A-Z]\<close> of the pattern.\<close>

definition is_capital :: "int \<Rightarrow> bool" where
  "is_capital c = (65 \<le> c \<and> c \<le> 90)"

text \<open>\<^verbatim>\<open>text.split()\<close>: maximal runs of non-whitespace, no empty words.\<close>

fun py_split :: "ustring \<Rightarrow> ustring \<Rightarrow> ustring list" where
  "py_split w [] = (if w = [] then [] else [w])"
| "py_split w (c # cs) =
     (if is_space c then (if w = [] then py_split [] cs else w # py_split [] cs)
      else py_split (w @ [c]) cs)"

definition split_ws :: "ustring \<Rightarrow> ustring list" where
  "split_ws s = py_split [] s"

text \<open>\<^verbatim>\<open>text.split(d)\<close> for a one-character separator: empty fields are kept.\<close>

fun split_on :: "int \<Rightarrow> ustring \<Rightarrow> ustring list" where
  "split_on d [] = [[]]"
| "split_on d (c # cs) =
     (if c = d then [] # split_on d cs
      else (case split_on d cs of [] \<Rightarrow> [[c]] | l # ls \<Rightarrow> (c # l) # ls))"

definition strip :: "ustring \<Rightarrow> ustring" where
  "strip s = rev (dropWhile is_space (rev (dropWhile is_space s)))"

fun str_join :: "ustring \<Rightarrow> ustring list \<Rightarrow> ustring" where
  "str_join sep [] = []"
| "str_join sep [x] = x"
| "str_join sep (x # y # ys) = x @ sep @ str_join sep (y # ys)"

definition replace_char :: "int \<Rightarrow> int \<Rightarrow> ustring \<Rightarrow> ustring" where
  "replace_char a b s = map (\<lambda>c. if c = a then b else c) s"

fun str_of_nat :: "nat \<Rightarrow> ustring" where
  "str_of_nat n =
     (if n < 10 then [48 + int n] else str_of_nat (n div 10) @ [48 + int (n mod 10)])"

definition str_of_int :: "int \<Rightarrow> ustring" where
  "str_of_int i = (if i < 0 then 45 # str_of_nat (nat (- i)) else str_of_nat (nat i))"

text \<open>
  \<^verbatim>\<open>line.isupper()\<close>: at least one upper-case character and no lower-case or title-case
  one; uncased characters do not count.
\<close>

definition py_isupper :: "char_tables \<Rightarrow> ustring \<Rightarrow> bool" where
  "py_isupper uc s =
     (list_ex (uppercase uc) s \<and> \<not> list_ex (\<lambda>c. lowercase uc c \<or> titlecase uc c) s)"

text \<open>
  \<^verbatim>\<open>re.match(r'^\d+\.?\s+[A-Z]', line)\<close>. After the digits the rest must open with blanks
  and a capital letter, with or without a period (U+002E) first; a capital letter is no
  blank, so the run of blanks is a maximal one. Every non-empty run of leading digits is
  tried, as the backtracking matcher does.
\<close>

definition blanks_capital :: "ustring \<Rightarrow> bool" where
  "blanks_capital r =
     (takeWhile is_space r \<noteq> []
      \<and> (case dropWhile is_space r of [] \<Rightarrow> False | c # r' \<Rightarrow> is_capital c))"

definition after_digits :: "ustring \<Rightarrow> bool" where
  "after_digits r =
     (blanks_capital r \<or> (case r of [] \<Rightarrow> False | c # r' \<Rightarrow> c = 46 \<and> blanks_capital r'))"

fun heading_match :: "char_tables \<Rightarrow> ustring \<Rightarrow> bool" where
  "heading_match uc [] = False"
| "heading_match uc (c # cs) = (decimal uc c \<and> (after_digits cs \<or> heading_match uc cs))"

section \<open>Configuration (config.py)\<close>

text \<open>The literal \<^verbatim>\<open>0.30\<close> is the double nearest to three tenths.\<close>

definition CHUNK_SIZE_WORDS :: int where "CHUNK_SIZE_WORDS = 350"
definition OVERLAP_PERCENTAGE :: real where "OVERLAP_PERCENTAGE = double_round (3 / 10)"
definition MIN_CHUNK_SIZE :: nat where "MIN_CHUNK_SIZE = 50"
definition TOP_K :: nat where "TOP_K = 5"
definition SIMILARITY_THRESHOLD :: real where "SIMILARITY_THRESHOLD = 0.25"

section \<open>The chunker (utils.py)\<close>

text \<open>
  A chunk dictionary. The keys \<^verbatim>\<open>text\<close> and \<^verbatim>\<open>section\<close> are the fields \<open>chunk_text\<close> and
  \<open>section_hint\<close> (both words are reserved in a theory).
\<close>

record chunk =
  chunk_text :: ustring
  page :: int
  section_hint :: ustring
  word_count :: nat

text \<open>The loop of \<^verbatim>\<open>extract_section_hint\<close> over \<^verbatim>\<open>lines[:3]\<close>, leaving at the first heading.\<close>

fun first_heading :: "char_tables \<Rightarrow> ustring list \<Rightarrow> ustring option" where
  "first_heading uc [] = None"
| "first_heading uc (l # ls) =
     (let line = strip l in
      if length line > 5 \<and> length line < 100 then
        (if py_isupper uc line \<or> heading_match uc line then Some line
         else first_heading uc ls)
      else first_heading uc ls)"

definition extract_section_hint :: "char_tables \<Rightarrow> ustring \<Rightarrow> ustring" where
  "extract_section_hint uc txt =
     (case first_heading uc (take 3 (split_on 10 txt)) of
        Some line \<Rightarrow> line
      | None \<Rightarrow> strip (replace_char 10 32 (take 50 txt)) @ ustr ''...'')"

definition mk_chunk :: "char_tables \<Rightarrow> int \<Rightarrow> ustring list \<Rightarrow> chunk" where
  "mk_chunk uc page_num chunk_words =
     (let joined = str_join [32] chunk_words in
      \<lparr>chunk_text = joined, page = page_num,
       section_hint = extract_section_hint uc joined, word_count = length chunk_words\<rparr>)"

text \<open>
  The body of \<^verbatim>\<open>for i in range(0, len(words), step)\<close> for a positive step: each round
  that reaches \<^verbatim>\<open>chunks.append\<close> yields the offset \<open>i\<close> and the window
  \<^verbatim>\<open>words[i:i + chunk_size_words]\<close>; a window under \<^verbatim>\<open>MIN_CHUNK_SIZE\<close> words breaks the
  loop. A negative step makes the range empty; a zero step is refused by the caller below.
\<close>

function chunk_windows ::
  "ustring list \<Rightarrow> int \<Rightarrow> int \<Rightarrow> nat \<Rightarrow> (nat \<times> ustring list) list" where
  "chunk_windows words chunk_size_words step i =
     (if step \<le> 0 \<or> length words \<le> i then []
      else (let chunk_words = py_slice words (int i) (int i + chunk_size_words) in
            if length chunk_words < MIN_CHUNK_SIZE then []
            else (i, chunk_words) # chunk_windows words chunk_size_words step (i + nat step)))"
  by pat_completeness auto
termination
  by (relation "measure (\<lambda>(words, chunk_size_words, step, i). length words - i)") auto

declare chunk_windows.simps [simp del]

text \<open>
  \<^verbatim>\<open>overlap_words = int(chunk_size_words * overlap_pct)\<close> is taken on the double product,
  and \<^verbatim>\<open>range\<close> raises \<^verbatim>\<open>ValueError\<close> for a zero step.
\<close>

definition chunk_text_with_overlap ::
  "char_tables \<Rightarrow> ustring \<Rightarrow> int \<Rightarrow> int \<Rightarrow> real \<Rightarrow> py_error + chunk list" where
  "chunk_text_with_overlap uc txt page_num chunk_size_words overlap_pct =
     (let words = split_ws txt in
      if length words < MIN_CHUNK_SIZE then Inr []
      else (case int_of_product chunk_size_words overlap_pct of
              Inl e \<Rightarrow> Inl e
            | Inr overlap_words \<Rightarrow>
                (let step = chunk_size_words - overlap_words
                 in if step = 0 then Inl ValueError
                    else Inr (map (\<lambda>(i, chunk_words). mk_chunk uc page_num chunk_words)
                                (chunk_windows words chunk_size_words step 0)))))"

section \<open>Ingestion (ingest.py)\<close>

text \<open>A chunk after \<^verbatim>\<open>create_chunks\<close> has given it the key \<^verbatim>\<open>chunk_id\<close>.\<close>

record id_chunk = chunk +
  chunk_id :: nat

definition with_id :: "chunk \<Rightarrow> nat \<Rightarrow> id_chunk" where
  "with_id c n =
     \<lparr>chunk_text = chunk_text c, page = page c, section_hint = section_hint c,
      word_count = word_count c, chunk_id = n\<rparr>"

text \<open>
  The inner loop \<^verbatim>\<open>for chunk in page_chunks\<close>, on the pair of the running counter
  \<^verbatim>\<open>chunk_id\<close> (here \<open>next_id\<close>) and the list \<^verbatim>\<open>all_chunks\<close>.
\<close>

fun add_chunk_ids :: "chunk list \<Rightarrow> nat \<times> id_chunk list \<Rightarrow> nat \<times> id_chunk list" where
  "add_chunk_ids [] st = st"
| "add_chunk_ids (c # cs) (next_id, all_chunks) =
     add_chunk_ids cs (next_id + 1, all_chunks @ [with_id c next_id])"

text \<open>
  The outer loop over \<^verbatim>\<open>sorted(page_texts.keys())\<close>. The page dictionary is a finite map;
  an exception of the chunker ends the loop.
\<close>

fun chunk_pages ::
  "char_tables \<Rightarrow> (int, ustring) fmap \<Rightarrow> int list \<Rightarrow> nat \<times> id_chunk list
     \<Rightarrow> py_error + (nat \<times> id_chunk list)" where
  "chunk_pages uc page_texts [] st = Inr st"
| "chunk_pages uc page_texts (page_num # rest) st =
     (case fmlookup page_texts page_num of
        None \<Rightarrow> Inl KeyError
      | Some txt \<Rightarrow>
          (case chunk_text_with_overlap uc txt page_num CHUNK_SIZE_WORDS OVERLAP_PERCENTAGE of
             Inl e \<Rightarrow> Inl e
           | Inr page_chunks \<Rightarrow>
               chunk_pages uc page_texts rest (add_chunk_ids page_chunks st)))"

text \<open>
  After the loops the function prints the average \<^verbatim>\<open>sum(...) / len(all_chunks)\<close>, which
  divides by zero when no chunk was made.
\<close>

definition create_chunks :: "char_tables \<Rightarrow> (int, ustring) fmap \<Rightarrow> py_error + id_chunk list" where
  "create_chunks uc page_texts =
     (case chunk_pages uc page_texts (sorted_list_of_fset (fmdom page_texts)) (0, []) of
        Inl e \<Rightarrow> Inl e
      | Inr (next_id, all_chunks) \<Rightarrow>
          if length all_chunks = 0 then Inl ZeroDivisionError else Inr all_chunks)"

section \<open>The answer formatter (utils.py)\<close>

definition decline_message :: ustring where
  "decline_message = ustr ''I don't have that in the handbook.''"

text \<open>
  \<^verbatim>\<open>page_groups\<close> is a dictionary from page to list of chunks, kept here as the list of
  its items in insertion order. One round of the grouping loop creates the page's entry
  when it is missing, then appends the chunk to it.
\<close>

definition group_add ::
  "(int \<times> 'a chunk_scheme list) list \<Rightarrow> 'a chunk_scheme \<Rightarrow> (int \<times> 'a chunk_scheme list) list" where
  "group_add page_groups c =
     (let created = (if map_of page_groups (page c) = None
                     then page_groups @ [(page c, [])] else page_groups)
      in map (\<lambda>(p, cs). if p = page c then (p, cs @ [c]) else (p, cs)) created)"

definition page_part :: "int \<times> 'a chunk_scheme list \<Rightarrow> ustring" where
  "page_part item =
     (case item of (p, page_chunks) \<Rightarrow>
        str_join [10] (map chunk_text page_chunks) @ ustr '' (p. '' @ str_of_int p @ ustr '')'')"

text \<open>
  \<^verbatim>\<open>sorted(page_groups.items())\<close> compares the items as tuples; the keys of a dictionary
  differ, so the page alone decides the order.
\<close>

definition format_retrieved_chunks :: "'a chunk_scheme list \<Rightarrow> ustring" where
  "format_retrieved_chunks chunks =
     (if chunks = [] then decline_message
      else (let page_groups = foldl group_add [] chunks;
                answer_parts = map page_part (sort_key fst page_groups)
            in str_join [10, 10] answer_parts))"

definition get_unique_pages :: "'a chunk_scheme list \<Rightarrow> int list" where
  "get_unique_pages chunks = sort (remdups (map page chunks))"

section \<open>Retrieval and the relevance gate (ask.py)\<close>

record scored_chunk = id_chunk +
  score :: real

definition with_score :: "id_chunk \<Rightarrow> real \<Rightarrow> scored_chunk" where
  "with_score m s =
     \<lparr>chunk_text = chunk_text m, page = page m, section_hint = section_hint m,
      word_count = word_count m, chunk_id = chunk_id m, score = s\<rparr>"

text \<open>
  The loaded assistant: the unpickled metadata list and the vector index. The index is the
  FAISS library's, outside the repository; \<open>index_search a query k\<close> stands for encoding
  and normalising the query and calling \<^verbatim>\<open>self.index.search(query_embedding, k)\<close>, and gives
  the rows \<^verbatim>\<open>scores[0]\<close> and \<^verbatim>\<open>indices[0]\<close> zipped, or the exception the call raises.
\<close>

record assistant =
  metadata :: "id_chunk list"
  index_search :: "ustring \<Rightarrow> nat \<Rightarrow> py_error + (real \<times> int) list"

text \<open>
  The loop \<^verbatim>\<open>for score, idx in zip(scores[0], indices[0])\<close>: \<^verbatim>\<open>self.metadata[idx]\<close> is a
  plain list access, so a negative label reads from the end of the list and a label out
  of range raises.
\<close>

fun join_hits :: "id_chunk list \<Rightarrow> (real \<times> int) list \<Rightarrow> py_error + scored_chunk list" where
  "join_hits meta [] = Inr []"
| "join_hits meta ((s, idx) # hits) =
     (case py_getitem meta idx of
        Inl e \<Rightarrow> Inl e
      | Inr m \<Rightarrow>
          (case join_hits meta hits of
             Inl e \<Rightarrow> Inl e
           | Inr retrieved \<Rightarrow> Inr (with_score m s # retrieved)))"

definition retrieve :: "assistant \<Rightarrow> ustring \<Rightarrow> nat option \<Rightarrow> py_error + scored_chunk list" where
  "retrieve a query top_k =
     (let k = (case top_k of None \<Rightarrow> TOP_K | Some k \<Rightarrow> k)
      in case index_search a query k of
           Inl e \<Rightarrow> Inl e
         | Inr hits \<Rightarrow> join_hits (metadata a) hits)"

text \<open>\<^verbatim>\<open>max(...)\<close> over a non-empty list, as the running maximum from its first element.\<close>

definition py_max :: "real list \<Rightarrow> real" where
  "py_max xs = fold max (tl xs) (hd xs)"

definition check_relevance :: "scored_chunk list \<Rightarrow> bool" where
  "check_relevance retrieved_chunks =
     (if retrieved_chunks = [] then False
      else SIMILARITY_THRESHOLD \<le> py_max (map score retrieved_chunks))"

record result =
  answer :: ustring
  sources :: "scored_chunk list"
  pages :: "int list"
  confidence :: ustring
  max_score :: real

definition declined :: result where
  "declined = \<lparr>answer = decline_message, sources = [], pages = [],
               confidence = ustr ''low'', max_score = 0\<rparr>"

text \<open>
  \<^verbatim>\<open>ask\<close>. The answered branch also appends to the prompt log file, which does not touch
  the returned dictionary and is left out.
\<close>

definition ask :: "assistant \<Rightarrow> ustring \<Rightarrow> py_error + result" where
  "ask a question =
     (case retrieve a question None of
        Inl e \<Rightarrow> Inl e
      | Inr retrieved_chunks \<Rightarrow>
          if \<not> check_relevance retrieved_chunks then Inr declined
          else (case py_getitem retrieved_chunks 0 of
                  Inl e \<Rightarrow> Inl e
                | Inr first_chunk \<Rightarrow>
                    Inr \<lparr>answer = format_retrieved_chunks retrieved_chunks,
                         sources = retrieved_chunks,
                         pages = get_unique_pages retrieved_chunks,
                         confidence =
                           (if score first_chunk > 0.5 then ustr ''high'' else ustr ''medium''),
                         max_score = score first_chunk\<rparr>))"

subsection \<open>The flat inner-product index\<close>

text \<open>
  \<^verbatim>\<open>faiss.IndexFlatIP.search\<close> scores every stored row and fills \<open>k\<close> result slots: the best
  rows by descending score, and, when the index holds fewer than \<open>k\<close> rows, the remaining
  slots with the label \<open>-1\<close> and the lowest 32-bit float as score; it refuses \<open>k = 0\<close> with
  an \<^verbatim>\<open>AssertionError\<close>. The argument \<open>ranking\<close> is the library's own ranking of all the
  stored rows for the query, each row's score with its label; the order the library
  gives to rows of equal score is part of that ranking and not fixed here.
\<close>

definition FLT_LOWEST :: real where
  "FLT_LOWEST = - 340282346638528859811704183484516925440"

definition faiss_search :: "(real \<times> int) list \<Rightarrow> nat \<Rightarrow> py_error + (real \<times> int) list" where
  "faiss_search ranking k =
     (if k = 0 then Inl AssertionError
      else Inr (take k ranking @ replicate (k - length ranking) (FLT_LOWEST, - 1)))"

text \<open>An assistant over a flat index that ranks its rows as \<open>ranking query\<close> for a query.\<close>

definition flat_assistant :: "id_chunk list \<Rightarrow> (ustring \<Rightarrow> (real \<times> int) list) \<Rightarrow> assistant" where
  "flat_assistant meta ranking =
     \<lparr>metadata = meta, index_search = (\<lambda>query k. faiss_search (ranking query) k)\<rparr>"

section \<open>Sample inputs\<close>

text \<open>
  The character classes of the characters that occur in the sample inputs: the ASCII
  digits, capital and small letters, and the Latin-1 letters U+00C9 (upper case) and
  U+00E9 (lower case); none of them is title-case.
\<close>

definition sample_tables :: char_tables where
  "sample_tables =
     \<lparr>decimal = (\<lambda>c. 48 \<le> c \<and> c \<le> 57),
      uppercase = (\<lambda>c. (65 \<le> c \<and> c \<le> 90) \<or> c = 201),
      lowercase = (\<lambda>c. (97 \<le> c \<and> c \<le> 122) \<or> c = 233),
      titlecase = (\<lambda>c. False)\<rparr>"

definition sixty_words :: ustring where
  "sixty_words = concat (replicate 60 (ustr ''w ''))"

definition eighty_words :: ustring where
  "eighty_words = concat (replicate 80 (ustr ''w ''))"

text \<open>Fifty one-letter words, the last two separated by a no-break space (U+00A0).\<close>

definition nbsp_words :: ustring where
  "nbsp_words = concat (replicate 48 (ustr ''w '')) @ [119, 160, 119]"

text \<open>A page of fifty one-letter words, 99 characters long, that opens with a number.\<close>

definition numbered_page :: ustring where
  "numbered_page = ustr ''1 A'' @ concat (replicate 48 (ustr '' a''))"

text \<open>Three pages given out of order, the last too short to chunk.\<close>

definition sample_pages :: "(int, ustring) fmap" where
  "sample_pages = fmap_of_list [(2, sixty_words), (1, sixty_words), (3, ustr ''short page'')]"

definition sample_meta :: "id_chunk list" where
  "sample_meta =
     [\<lparr>chunk_text = ustr ''Margins must be one inch on all sides.'', page = 1,
       section_hint = ustr ''Margins must be one inch on all sides....'',
       word_count = 8, chunk_id = 0\<rparr>,
      \<lparr>chunk_text = ustr ''Headings use 12pt bold font.'', page = 2,
       section_hint = ustr ''Headings use 12pt bold font....'', word_count = 5, chunk_id = 1\<rparr>,
      \<lparr>chunk_text = ustr ''Line spacing is 1.5.'', page = 2,
       section_hint = ustr ''Line spacing is 1.5....'', word_count = 4, chunk_id = 2\<rparr>,
      \<lparr>chunk_text = ustr ''Use endnotes.'', page = 3,
       section_hint = ustr ''Use endnotes....'', word_count = 2, chunk_id = 3\<rparr>,
      \<lparr>chunk_text = ustr ''Number all pages.'', page = 1,
       section_hint = ustr ''Number all pages....'', word_count = 3, chunk_id = 4\<rparr>]"

text \<open>The index's ranking of the five rows for four sample queries.\<close>

definition sample_ranking :: "ustring \<Rightarrow> (real \<times> int) list" where
  "sample_ranking query =
     (if query = ustr ''margins'' then [(1/4, 0), (1/5, 2), (1/10, 1), (1/20, 3), (0, 4)]
      else if query = ustr ''weather'' then [(6/25, 0), (1/5, 2), (1/10, 1), (1/20, 3), (0, 4)]
      else if query = ustr ''fonts'' then [(3/4, 1), (3/10, 2), (1/5, 3), (1/10, 0), (0, 4)]
      else if query = ustr ''spacing'' then [(1/2, 2), (3/10, 1), (1/5, 3), (1/10, 0), (0, 4)]
      else [(0, 0), (0, 1), (0, 2), (0, 3), (0, 4)])"

definition sample_assistant :: assistant where
  "sample_assistant = flat_assistant sample_meta sample_ranking"

text \<open>The two-chunk corpus of the specification's end-to-end scenarios.\<close>

definition two_chunk_assistant :: assistant where
  "two_chunk_assistant = flat_assistant (take 2 sample_meta) (\<lambda>query. [(4/5, 0), (1/10, 1)])"

section \<open>Auxiliary notions\<close>

text \<open>
  A line that \<^verbatim>\<open>str.isupper\<close> accepts: some upper-case character, and no lower-case or
  title-case one.
\<close>

definition upper_case_line :: "char_tables \<Rightarrow> ustring \<Rightarrow> bool" where
  "upper_case_line uc line =
     ((\<exists>c \<in> set line. uppercase uc c)
      \<and> (\<forall>c \<in> set line. \<not> lowercase uc c \<and> \<not> titlecase uc c))"

text \<open>
  A line that opens with a number: one or more decimal digits, a period or none, one or
  more blanks, and a capital letter \<open>A\<close> to \<open>Z\<close>.
\<close>

definition numbered_line :: "char_tables \<Rightarrow> ustring \<Rightarrow> bool" where
  "numbered_line uc line =
     (\<exists>ds dot ws c rest. line = ds @ dot @ ws @ c # rest
        \<and> ds \<noteq> [] \<and> (\<forall>d \<in> set ds. decimal uc d) \<and> (dot = [] \<or> dot = [46])
        \<and> ws \<noteq> [] \<and> (\<forall>w \<in> set ws. is_space w) \<and> is_capital c)"

definition heading_line :: "char_tables \<Rightarrow> ustring \<Rightarrow> bool" where
  "heading_line uc line =
     (6 \<le> length line \<and> length line \<le> 99
      \<and> (upper_case_line uc line \<or> numbered_line uc line))"

text \<open>Two character tables that agree on every character of a string.\<close>

definition same_classes :: "char_tables \<Rightarrow> char_tables \<Rightarrow> ustring \<Rightarrow> bool" where
  "same_classes uc uc' s =
     (\<forall>c \<in> set s. decimal uc c = decimal uc' c \<and> uppercase uc c = uppercase uc' c
                  \<and> lowercase uc c = lowercase uc' c \<and> titlecase uc c = titlecase uc' c)"

text \<open>
  The number of word positions of the page that two windows share, a window being its
  offset and its words.
\<close>

definition shared_positions :: "nat \<times> 'a list \<Rightarrow> nat \<times> 'a list \<Rightarrow> nat" where
  "shared_positions u v =
     card ({fst u ..< fst u + length (snd u)} \<inter> {fst v ..< fst v + length (snd v)})"

text \<open>The list stored under a key of the grouping dictionary, empty for a missing key.\<close>

definition entries :: "(int \<times> 'b list) list \<Rightarrow> int \<Rightarrow> 'b list" where
  "entries g p = (case map_of g p of None \<Rightarrow> [] | Some l \<Rightarrow> l)"

text \<open>
  The chunks the chunker returns for one page of the page dictionary under the configured
  size and overlap (no chunks for a missing page or a failed call).
\<close>

definition page_chunks :: "char_tables \<Rightarrow> (int, ustring) fmap \<Rightarrow> int \<Rightarrow> chunk list" where
  "page_chunks uc page_texts p =
     (case fmlookup page_texts p of
        None \<Rightarrow> []
      | Some txt \<Rightarrow>
          (case chunk_text_with_overlap uc txt p CHUNK_SIZE_WORDS OVERLAP_PERCENTAGE of
             Inl e \<Rightarrow> [] | Inr cs \<Rightarrow> cs))"

section \<open>Notions of the specification\<close>

text \<open>
  The specification's \<open>max_score\<close>: the highest score among the retrieved chunks, and 0
  when there are none.
\<close>

definition highest_score :: "scored_chunk list \<Rightarrow> real" where
  "highest_score rs = (if rs = [] then 0 else Max (score ` set rs))"

text \<open>
  The formatter as the specification words it: pages in ascending order, each page's
  chunks in arrival order joined by a newline and followed by the page citation, the
  pages joined by a blank line.
\<close>

definition spec_format :: "'a chunk_scheme list \<Rightarrow> ustring" where
  "spec_format chunks =
     (if chunks = [] then decline_message
      else str_join [10, 10]
             (map (\<lambda>p. str_join [10] (map chunk_text (filter (\<lambda>c. page c = p) chunks))
                         @ ustr '' (p. '' @ str_of_int p @ ustr '')'')
                  (sorted_list_of_set (page ` set chunks))))"

text \<open>
  The section hint as the specification words it: the heading pattern is an integer, a
  period and a capitalised word, and the fallback collapses whitespace.
\<close>

definition period_capital :: "ustring \<Rightarrow> bool" where
  "period_capital r =
     (case r of [] \<Rightarrow> False
      | c # r' \<Rightarrow> c = 46 \<and> (case dropWhile is_space r' of [] \<Rightarrow> False | d # r'' \<Rightarrow> is_capital d))"

fun spec_heading_pattern :: "char_tables \<Rightarrow> ustring \<Rightarrow> bool" where
  "spec_heading_pattern uc [] = False"
| "spec_heading_pattern uc (c # cs) =
     (decimal uc c \<and> (period_capital cs \<or> spec_heading_pattern uc cs))"

definition collapse_ws :: "ustring \<Rightarrow> ustring" where
  "collapse_ws s = str_join [32] (split_ws s)"

definition spec_section_hint :: "char_tables \<Rightarrow> ustring \<Rightarrow> ustring" where
  "spec_section_hint uc txt =
     (case find (\<lambda>line. 6 \<le> length line \<and> length line \<le> 99
                         \<and> (py_isupper uc line \<or> spec_heading_pattern uc line))
                (map strip (take 3 (split_on 10 txt))) of
        Some line \<Rightarrow> line
      | None \<Rightarrow> collapse_ws (take 50 txt) @ ustr ''...'')"

text \<open>
  The overlap property as the specification words it: the overlap is the floor of the
  product, and every pair of consecutive chunks shares exactly that many words, a pair
  that ends in the final chunk apart. The product is the one the code computes.
\<close>

definition spec_overlap_claim :: "ustring \<Rightarrow> int \<Rightarrow> real \<Rightarrow> bool" where
  "spec_overlap_claim txt chunk_size_words overlap_pct =
     (case int_float_mul chunk_size_words overlap_pct of
        Inr (Some p) \<Rightarrow>
          (let overlap_words = py_int p;
               ws = chunk_windows (split_ws txt) chunk_size_words
                      (chunk_size_words - overlap_words) 0
           in overlap_words = \<lfloor>p\<rfloor>
              \<and> list_all (\<lambda>j. shared_positions (ws ! j) (ws ! Suc j) = nat overlap_words)
                    [0..<length ws - 2])
      | _ \<Rightarrow> False)"

text \<open>
  The size property as the specification words it: no error, and every chunk within the
  two bounds.
\<close>

definition spec_size_claim :: "char_tables \<Rightarrow> ustring \<Rightarrow> int \<Rightarrow> int \<Rightarrow> real \<Rightarrow> bool" where
  "spec_size_claim uc txt page_num chunk_size_words overlap_pct =
     (case chunk_text_with_overlap uc txt page_num chunk_size_words overlap_pct of
        Inl e \<Rightarrow> False
      | Inr cs \<Rightarrow>
          list_all (\<lambda>c. MIN_CHUNK_SIZE \<le> word_count c \<and> int (word_count c) \<le> chunk_size_words)
            cs)"

section \<open>Chunk sizes\<close>

lemma py_slice_length_le:
  "0 \<le> T \<Longrightarrow> int (length (py_slice xs (int i) (int i + T))) \<le> T"
  by (auto simp: py_slice_def py_clamp_def Let_def min_def)

lemma py_slice_window:
  "0 \<le> T \<Longrightarrow> py_slice xs (int i) (int i + T) = take (nat T) (drop i xs)"
  by (auto simp: py_slice_def py_clamp_def Let_def min_def nat_add_distrib)

lemma py_slice_length_le_list: "length (py_slice xs lo hi) \<le> length xs"
  by (simp add: py_slice_def Let_def)

lemma chunk_windows_min:
  "(i, w) \<in> set (chunk_windows words T step j) \<Longrightarrow> MIN_CHUNK_SIZE \<le> length w"
proof (induction words T step j rule: chunk_windows.induct)
  case (1 words T step j)
  then show ?case
    by (subst (asm) (2) chunk_windows.simps) (auto simp: Let_def split: if_splits)
qed

lemma chunk_windows_max:
  "(i, w) \<in> set (chunk_windows words T step j) \<Longrightarrow> 0 \<le> T \<Longrightarrow> int (length w) \<le> T"
proof (induction words T step j rule: chunk_windows.induct)
  case (1 words T step j)
  then show ?case
    by (subst (asm) (2) chunk_windows.simps)
       (auto simp: Let_def py_slice_length_le split: if_splits)
qed

lemma chunk_windows_short:
  "length words < MIN_CHUNK_SIZE \<Longrightarrow> chunk_windows words T step 0 = []"
  using py_slice_length_le_list [of words "int 0" "int 0 + T"]
  by (subst chunk_windows.simps) (auto simp: Let_def)

lemma chunk_text_with_overlap_short:
  "length (split_ws txt) < MIN_CHUNK_SIZE \<Longrightarrow>
     chunk_text_with_overlap uc txt page_num chunk_size_words overlap_pct = Inr []"
  by (simp add: chunk_text_with_overlap_def)

text \<open>With a stride other than zero the chunker returns one chunk per window.\<close>

lemma chunk_text_with_overlap_run:
  assumes "int_of_product chunk_size_words overlap_pct = Inr overlap_words"
      and "chunk_size_words - overlap_words \<noteq> 0"
  shows "chunk_text_with_overlap uc txt page_num chunk_size_words overlap_pct =
           Inr (map (\<lambda>(i, w). mk_chunk uc page_num w)
                  (chunk_windows (split_ws txt) chunk_size_words
                     (chunk_size_words - overlap_words) 0))"
proof (cases "length (split_ws txt) < MIN_CHUNK_SIZE")
  case True
  then show ?thesis by (simp add: chunk_text_with_overlap_short chunk_windows_short)
next
  case False
  with assms show ?thesis by (simp add: chunk_text_with_overlap_def Let_def)
qed

lemma split_sixty_words: "split_ws sixty_words = replicate 60 (ustr ''w'')"
  by code_simp

lemma sixty_words_chunk:
  "int_of_product 55 (double_round (1/5)) = Inr 11
   \<and> map word_count (case chunk_text_with_overlap sample_tables sixty_words 1 55
                              (double_round (1/5)) of
                        Inr cs \<Rightarrow> cs | Inl e \<Rightarrow> []) = [55]"
  by code_simp

lemma nbsp_words_chunk:
  "map word_count (case chunk_text_with_overlap sample_tables nbsp_words 1 55
                              (double_round (1/5)) of
                        Inr cs \<Rightarrow> cs | Inl e \<Rightarrow> []) = [50]"
  by code_simp

lemma three_words: "length (split_ws (ustr ''only three words'')) < MIN_CHUNK_SIZE"
  by code_simp

text \<open>
  C6 (amended). For a target size that is not negative and a stride that the code
  computes as at least 1, chunking returns a chunk list, not an error; every chunk in it
  has between \<^verbatim>\<open>MIN_CHUNK_SIZE\<close> and \<^verbatim>\<open>chunk_size_words\<close> words; and a page with fewer
  than \<^verbatim>\<open>MIN_CHUNK_SIZE\<close> words gives the empty list.
\<close>

theorem chunk_word_count_bounds:
  assumes "int_of_product chunk_size_words overlap_pct = Inr overlap_words"
      and "1 \<le> chunk_size_words - overlap_words"
      and "0 \<le> chunk_size_words"
  shows "\<exists>cs. chunk_text_with_overlap uc txt page_num chunk_size_words overlap_pct = Inr cs
            \<and> (\<forall>c \<in> set cs. MIN_CHUNK_SIZE \<le> word_count c
                              \<and> int (word_count c) \<le> chunk_size_words)
            \<and> (length (split_ws txt) < MIN_CHUNK_SIZE \<longrightarrow> cs = [])"
proof -
  let ?ws = "chunk_windows (split_ws txt) chunk_size_words (chunk_size_words - overlap_words) 0"
  have eq: "chunk_text_with_overlap uc txt page_num chunk_size_words overlap_pct =
              Inr (map (\<lambda>(i, w). mk_chunk uc page_num w) ?ws)"
    using assms(1,2) by (intro chunk_text_with_overlap_run) auto
  have "MIN_CHUNK_SIZE \<le> length w \<and> int (length w) \<le> chunk_size_words"
    if "(i, w) \<in> set ?ws" for i w
    using that assms(3) chunk_windows_min chunk_windows_max by blast
  then have "\<forall>c \<in> set (map (\<lambda>(i, w). mk_chunk uc page_num w) ?ws).
               MIN_CHUNK_SIZE \<le> word_count c \<and> int (word_count c) \<le> chunk_size_words"
    by (auto simp: mk_chunk_def Let_def)
  moreover have "length (split_ws txt) < MIN_CHUNK_SIZE \<longrightarrow> ?ws = []"
    by (simp add: chunk_windows_short)
  ultimately show ?thesis using eq by simp
qed

text \<open>
  Eighty words with a target of \<open>-10\<close> and a fraction of 2: the overlap is \<open>-20\<close>, the
  stride 10, and the slice \<^verbatim>\<open>words[0:-10]\<close> is one chunk of 70 words, above the target.
\<close>

theorem chunk_word_count_bounds_counterexample:
  "int_of_product (- 10) 2 = Inr (- 20)
   \<and> map word_count (case chunk_text_with_overlap sample_tables eighty_words 1 (- 10) 2 of
                        Inr cs \<Rightarrow> cs | Inl e \<Rightarrow> []) = [70]
   \<and> \<not> spec_size_claim sample_tables eighty_words 1 (- 10) 2"
  by code_simp

theorem chunk_word_count_bounds_witness:
  "int_of_product 55 (double_round (1/5)) = Inr 11 \<and> (1 :: int) \<le> 55 - 11 \<and> (0 :: int) \<le> 55
   \<and> (\<exists>cs. chunk_text_with_overlap sample_tables sixty_words 1 55 (double_round (1/5)) = Inr cs
          \<and> map word_count cs = [55]
          \<and> list_all (\<lambda>c. MIN_CHUNK_SIZE \<le> word_count c \<and> int (word_count c) \<le> 55) cs)
   \<and> (\<exists>cs. chunk_text_with_overlap sample_tables nbsp_words 1 55 (double_round (1/5)) = Inr cs
          \<and> map word_count cs = [50])
   \<and> chunk_text_with_overlap sample_tables (ustr ''only three words'') 7 55 (double_round (1/5))
       = Inr []"
proof -
  have h1: "int_of_product 55 (double_round (1/5)) = Inr 11"
    using sixty_words_chunk by simp
  have h2: "(1 :: int) \<le> 55 - 11" and h3: "(0 :: int) \<le> 55" by simp_all
  obtain cs where cs:
      "chunk_text_with_overlap sample_tables sixty_words 1 55 (double_round (1/5)) = Inr cs"
      "\<forall>c \<in> set cs. MIN_CHUNK_SIZE \<le> word_count c \<and> int (word_count c) \<le> 55"
    using chunk_word_count_bounds [OF h1 h2 h3, of sample_tables sixty_words 1] by blast
  have sixty: "map word_count cs = [55]"
    using sixty_words_chunk cs(1) by simp
  obtain bs where bs:
      "chunk_text_with_overlap sample_tables nbsp_words 1 55 (double_round (1/5)) = Inr bs"
    using chunk_word_count_bounds [OF h1 h2 h3, of sample_tables nbsp_words 1] by blast
  have fifty: "map word_count bs = [50]"
    using nbsp_words_chunk bs by simp
  obtain ds where ds:
      "chunk_text_with_overlap sample_tables (ustr ''only three words'') 7 55
         (double_round (1/5)) = Inr ds"
      "length (split_ws (ustr ''only three words'')) < MIN_CHUNK_SIZE \<longrightarrow> ds = []"
    using chunk_word_count_bounds [OF h1 h2 h3, of sample_tables "ustr ''only three words''" 7]
    by blast
  from cs sixty bs fifty ds three_words h1 show ?thesis
    by (auto simp: list_all_iff)
qed

section \<open>Chunk overlap\<close>

lemma round_half_even_nonneg: "0 \<le> x \<Longrightarrow> 0 \<le> round_half_even x"
  by (simp add: round_half_even_def Let_def)

lemma pow2_pos: "0 < pow2 e"
  by (simp add: pow2_def)

lemma double_round_nonneg:
  assumes "0 \<le> x"
  shows "0 \<le> double_round x"
proof (cases "x = 0")
  case True
  then show ?thesis by (simp add: double_round_def)
next
  case False
  define u where "u = pow2 (max (binade \<bar>x\<bar>) (- 1022) - 52)"
  have u: "0 < u" unfolding u_def by (rule pow2_pos)
  with assms have "0 \<le> x / u" by simp
  then have "0 \<le> round_half_even (x / u)" by (rule round_half_even_nonneg)
  with u have "0 \<le> u * real_of_int (round_half_even (x / u))" by simp
  with False show ?thesis by (simp add: double_round_def Let_def u_def)
qed

text \<open>
  What a computed \<^verbatim>\<open>overlap_words\<close> says about the product: it is a finite double, and
  \<^verbatim>\<open>int\<close> truncated it.
\<close>

lemma int_of_product_Inr:
  assumes "int_of_product n x = Inr m"
  shows "\<exists>c p. py_float n = Inr c \<and> c = double_round (real_of_int n)
               \<and> p = double_round (c * x)
               \<and> int_float_mul n x = Inr (Some p) \<and> m = py_int p"
  using assms
  by (auto simp: int_of_product_def int_float_mul_def int_of_float_def py_float_def
                 float_mul_def Let_def
           split: sum.splits option.splits if_splits)

lemma int_of_product_floor:
  assumes "int_of_product n x = Inr m" and "0 \<le> n" and "0 \<le> x"
  shows "\<exists>p. int_float_mul n x = Inr (Some p) \<and> 0 \<le> p \<and> m = \<lfloor>p\<rfloor> \<and> 0 \<le> m"
proof -
  from int_of_product_Inr [OF assms(1)] obtain c p where cp:
      "c = double_round (real_of_int n)" "p = double_round (c * x)"
      "int_float_mul n x = Inr (Some p)" "m = py_int p"
    by blast
  have "0 \<le> c" unfolding cp(1) using assms(2) by (intro double_round_nonneg) simp
  with assms(3) have "0 \<le> p" unfolding cp(2) by (intro double_round_nonneg) simp
  with cp(3,4) show ?thesis by (auto simp: py_int_def)
qed

lemma shared_positions_eq:
  "shared_positions (a, u) (b, v) = min (a + length u) (b + length v) - max a b"
  by (simp add: shared_positions_def)

lemma shared_positions_spans:
  "shared_positions x y =
     min (fst x + length (snd x)) (fst y + length (snd y)) - max (fst x) (fst y)"
  by (cases x, cases y) (simp add: shared_positions_eq)

lemma chunk_windows_nth:
  assumes "1 \<le> step" and "0 \<le> T"
  shows "j < length (chunk_windows words T step i) \<Longrightarrow>
         chunk_windows words T step i ! j =
           (i + j * nat step, take (nat T) (drop (i + j * nat step) words))"
  using assms
proof (induction words T step i arbitrary: j rule: chunk_windows.induct)
  case (1 words T step i)
  let ?w = "py_slice words (int i) (int i + T)"
  from "1.prems"(1) have guard: "\<not> (step \<le> 0 \<or> length words \<le> i)" "\<not> length ?w < MIN_CHUNK_SIZE"
    by (subst (asm) chunk_windows.simps, auto simp: Let_def split: if_splits)+
  then have unfold: "chunk_windows words T step i =
      (i, ?w) # chunk_windows words T step (i + nat step)"
    by (subst chunk_windows.simps) (simp add: Let_def)
  show ?case
  proof (cases j)
    case 0
    with unfold "1.prems" show ?thesis by (simp add: py_slice_window)
  next
    case (Suc j')
    with "1.prems"(1) unfold have "j' < length (chunk_windows words T step (i + nat step))"
      by simp
    from "1.IH" [OF guard(1) refl guard(2) this "1.prems"(2,3)] Suc unfold
    show ?thesis by (simp add: algebra_simps)
  qed
qed

lemma chunk_windows_offset_in_range:
  assumes "1 \<le> step" and "0 \<le> T" and "j < length (chunk_windows words T step i)"
  shows "i + j * nat step < length words"
proof -
  from chunk_windows_nth [OF assms]
  have "(i + j * nat step, take (nat T) (drop (i + j * nat step) words))
          \<in> set (chunk_windows words T step i)"
    using assms(3) by (metis nth_mem)
  from chunk_windows_min [OF this]
  have "MIN_CHUNK_SIZE \<le> length (take (nat T) (drop (i + j * nat step) words))" .
  then show ?thesis by (simp add: MIN_CHUNK_SIZE_def) linarith
qed

lemma overlap_arith:
  fixes a s v N :: nat
  assumes "a + s < N"
  shows "min (a + min (N - a) (s + v)) (a + s + min (N - (a + s)) (s + v)) - max a (a + s)
           = min v (min (N - (a + s)) (s + v))"
    and "min (N - a) (s + v) = s + v \<Longrightarrow>
         min (a + min (N - a) (s + v)) (a + s + min (N - (a + s)) (s + v)) - max a (a + s) = v"
  using assms by (auto simp: min_def max_def split: if_splits)

lemma consecutive_windows_shared:
  assumes "0 \<le> ov" and "ov < T"
      and "Suc j < length (chunk_windows words T (T - ov) 0)"
  defines "ws \<equiv> chunk_windows words T (T - ov) 0"
  shows "fst (ws ! Suc j) = fst (ws ! j) + nat (T - ov)"
    and "snd (ws ! j) = take (nat T) (drop (fst (ws ! j)) words)"
    and "snd (ws ! Suc j) = take (nat T) (drop (fst (ws ! Suc j)) words)"
    and "shared_positions (ws ! j) (ws ! Suc j) = min (nat ov) (length (snd (ws ! Suc j)))"
    and "length (snd (ws ! j)) = nat T \<Longrightarrow> shared_positions (ws ! j) (ws ! Suc j) = nat ov"
proof -
  define s where "s = nat (T - ov)"
  define v where "v = nat ov"
  define a where "a = j * s"
  define N where "N = length words"
  have step: "1 \<le> T - ov" and T: "0 \<le> T" using assms(1,2) by auto
  have TT: "nat T = s + v" using assms(1,2) by (simp add: s_def v_def)
  have j: "j < length (chunk_windows words T (T - ov) 0)" using assms(3) by simp
  have TT': "nat T = nat (T - ov) + v" using assms(1,2) by (simp add: v_def)
  have wj: "ws ! j = (a, take (s + v) (drop a words))"
    unfolding ws_def a_def s_def
    using chunk_windows_nth [OF step T j] by (simp add: TT')
  have wk: "ws ! Suc j = (a + s, take (s + v) (drop (a + s) words))"
    unfolding ws_def a_def s_def
    using chunk_windows_nth [OF step T assms(3)] by (simp add: TT' add.commute)
  have inr: "a + s < N"
    unfolding a_def s_def N_def
    using chunk_windows_offset_in_range [OF step T assms(3)] by (simp add: add.commute)
  show "fst (ws ! Suc j) = fst (ws ! j) + nat (T - ov)" by (simp add: wj wk s_def)
  show "snd (ws ! j) = take (nat T) (drop (fst (ws ! j)) words)" by (simp add: wj TT)
  show "snd (ws ! Suc j) = take (nat T) (drop (fst (ws ! Suc j)) words)" by (simp add: wk TT)
  have lu: "length (snd (ws ! j)) = min (N - a) (s + v)" by (simp add: wj N_def)
  have lv: "length (snd (ws ! Suc j)) = min (N - (a + s)) (s + v)" by (simp add: wk N_def)
  have sp: "shared_positions (ws ! j) (ws ! Suc j) =
      min (a + min (N - a) (s + v)) (a + s + min (N - (a + s)) (s + v)) - max a (a + s)"
    unfolding wj wk shared_positions_eq by (simp only: length_take length_drop N_def)
  show "shared_positions (ws ! j) (ws ! Suc j) = min (nat ov) (length (snd (ws ! Suc j)))"
    unfolding sp lv v_def [symmetric] by (rule overlap_arith(1) [OF inr])
  show "shared_positions (ws ! j) (ws ! Suc j) = nat ov" if "length (snd (ws ! j)) = nat T"
  proof -
    from that have "min (N - a) (s + v) = s + v" unfolding lu TT .
    from overlap_arith(2) [OF inr this] show ?thesis
      unfolding sp v_def [symmetric] .
  qed
qed

lemma eighty_product: "int_of_product 80 (7/8) = Inr 70"
  by code_simp

lemma eighty_float_product: "int_float_mul 80 (7/8) = Inr (Some 70)"
  by code_simp

lemma configured_overlap:
  "int_of_product CHUNK_SIZE_WORDS OVERLAP_PERCENTAGE = Inr 105"
  by code_simp

lemma configured_exact_floor:
  "\<lfloor>real_of_int CHUNK_SIZE_WORDS * OVERLAP_PERCENTAGE\<rfloor> = 104"
  by code_simp

lemma eighty_windows:
  "map (\<lambda>(i, w). (i, length w)) (chunk_windows (split_ws eighty_words) 80 10 0)
     = [(0, 80), (10, 70), (20, 60), (30, 50)]"
  by code_simp

lemma eighty_spans:
  defines "ws \<equiv> chunk_windows (split_ws eighty_words) 80 10 0"
  shows "length ws = 4"
    and "fst (ws ! 0) = 0 \<and> length (snd (ws ! 0)) = 80"
    and "fst (ws ! 1) = 10 \<and> length (snd (ws ! 1)) = 70"
    and "fst (ws ! 2) = 20 \<and> length (snd (ws ! 2)) = 60"
    and "fst (ws ! 3) = 30 \<and> length (snd (ws ! 3)) = 50"
proof -
  have m: "map (\<lambda>(i, w). (i, length w)) ws = [(0, 80), (10, 70), (20, 60), (30, 50)]"
    unfolding ws_def by (rule eighty_windows)
  from arg_cong [OF m, of length] show len: "length ws = 4" by simp
  have nth: "(\<lambda>(i, w). (i, length w)) (ws ! k) = [(0, 80), (10, 70), (20, 60), (30, 50)] ! k"
    if "k < 4" for k
    using that len nth_map [of k ws "\<lambda>(i, w). (i, length w)"] m by simp
  from nth [of 0] show "fst (ws ! 0) = 0 \<and> length (snd (ws ! 0)) = 80"
    by (simp add: case_prod_beta)
  from nth [of 1] show "fst (ws ! 1) = 10 \<and> length (snd (ws ! 1)) = 70"
    by (simp add: case_prod_beta)
  from nth [of 2] show "fst (ws ! 2) = 20 \<and> length (snd (ws ! 2)) = 60"
    by (simp add: case_prod_beta)
  from nth [of 3] show "fst (ws ! 3) = 30 \<and> length (snd (ws ! 3)) = 50"
    by (simp add: case_prod_beta)
qed

text \<open>
  C5 (amended). Take a target size and an overlap fraction that are not negative, and let
  the code compute \<^verbatim>\<open>overlap_words\<close> below the target size, so that the stride is at least
  1. Then \<^verbatim>\<open>overlap_words\<close> is the floor of the double-precision product
  \<^verbatim>\<open>chunk_size_words * overlap_pct\<close>, chunking returns one chunk per window, and each
  window starts one stride after the one before. Two consecutive windows share exactly as
  many words as the smaller of \<^verbatim>\<open>overlap_words\<close> and the length of the later window; that
  is exactly \<^verbatim>\<open>overlap_words\<close> whenever the earlier window is full.
\<close>

theorem consecutive_chunks_overlap:
  assumes "int_of_product chunk_size_words overlap_pct = Inr overlap_words"
      and "overlap_words < chunk_size_words"
      and "0 \<le> chunk_size_words" and "0 \<le> overlap_pct"
  shows "\<exists>p ws. int_float_mul chunk_size_words overlap_pct = Inr (Some p)
            \<and> overlap_words = \<lfloor>p\<rfloor>
            \<and> ws = chunk_windows (split_ws txt) chunk_size_words
                     (chunk_size_words - overlap_words) 0
            \<and> chunk_text_with_overlap uc txt page_num chunk_size_words overlap_pct =
                Inr (map (\<lambda>(i, w). mk_chunk uc page_num w) ws)
            \<and> (\<forall>j. Suc j < length ws \<longrightarrow>
                  fst (ws ! Suc j) = fst (ws ! j) + nat (chunk_size_words - overlap_words)
                  \<and> snd (ws ! j) = take (nat chunk_size_words) (drop (fst (ws ! j)) (split_ws txt))
                  \<and> snd (ws ! Suc j) =
                      take (nat chunk_size_words) (drop (fst (ws ! Suc j)) (split_ws txt))
                  \<and> shared_positions (ws ! j) (ws ! Suc j) =
                      min (nat overlap_words) (length (snd (ws ! Suc j)))
                  \<and> (length (snd (ws ! j)) = nat chunk_size_words \<longrightarrow>
                        shared_positions (ws ! j) (ws ! Suc j) = nat overlap_words))"
proof -
  let ?ws = "chunk_windows (split_ws txt) chunk_size_words (chunk_size_words - overlap_words) 0"
  from int_of_product_floor [OF assms(1,3,4)] obtain p where p:
      "int_float_mul chunk_size_words overlap_pct = Inr (Some p)"
      "overlap_words = \<lfloor>p\<rfloor>" "0 \<le> overlap_words"
    by blast
  have run: "chunk_text_with_overlap uc txt page_num chunk_size_words overlap_pct =
               Inr (map (\<lambda>(i, w). mk_chunk uc page_num w) ?ws)"
    using assms(1,2) by (intro chunk_text_with_overlap_run) auto
  have pairs: "fst (?ws ! Suc j) = fst (?ws ! j) + nat (chunk_size_words - overlap_words)
      \<and> snd (?ws ! j) = take (nat chunk_size_words) (drop (fst (?ws ! j)) (split_ws txt))
      \<and> snd (?ws ! Suc j) = take (nat chunk_size_words) (drop (fst (?ws ! Suc j)) (split_ws txt))
      \<and> shared_positions (?ws ! j) (?ws ! Suc j)
          = min (nat overlap_words) (length (snd (?ws ! Suc j)))
      \<and> (length (snd (?ws ! j)) = nat chunk_size_words \<longrightarrow>
            shared_positions (?ws ! j) (?ws ! Suc j) = nat overlap_words)"
    if "Suc j < length ?ws" for j
    using consecutive_windows_shared [OF p(3) assms(2) that] by blast
  from p(1,2) run pairs show ?thesis by blast
qed

text \<open>
  Eighty words with a target of 80 and a fraction of 7/8 give four chunks of 80, 70, 60
  and 50 words one stride of 10 apart: the second and third chunk share 60 words, not 70,
  and neither is the final chunk. And with the configured 350 and 0.30 the code's overlap
  is 105 words, the double product being 105.0, while the floor of the product of the two
  numbers themselves is 104.
\<close>

theorem consecutive_chunks_overlap_counterexample:
  "\<not> spec_overlap_claim eighty_words 80 (7/8)
   \<and> int_of_product CHUNK_SIZE_WORDS OVERLAP_PERCENTAGE = Inr 105
   \<and> \<lfloor>real_of_int CHUNK_SIZE_WORDS * OVERLAP_PERCENTAGE\<rfloor> = 104"
proof -
  let ?ws = "chunk_windows (split_ws eighty_words) 80 10 0"
  have "\<not> spec_overlap_claim eighty_words 80 (7/8)"
  proof
    assume "spec_overlap_claim eighty_words 80 (7/8)"
    then have "list_all (\<lambda>j. shared_positions (?ws ! j) (?ws ! Suc j) = 70)
                 [0..<length ?ws - 2]"
      by (simp add: spec_overlap_claim_def Let_def eighty_float_product py_int_def)
    moreover have "[0..<length ?ws - 2] = [0, 1]"
      by (simp add: eighty_spans(1) upt_rec)
    ultimately have "shared_positions (?ws ! 1) (?ws ! Suc 1) = 70"
      by simp
    moreover have "shared_positions (?ws ! 1) (?ws ! Suc 1) = 60"
      using eighty_spans(3,4) by (simp add: shared_positions_spans numeral_2_eq_2 [symmetric])
    ultimately show False by simp
  qed
  with configured_overlap configured_exact_floor show ?thesis by simp
qed

theorem consecutive_chunks_overlap_witness:
  "int_of_product 80 (7/8) = Inr 70 \<and> (70 :: int) < 80 \<and> (0 :: int) \<le> 80 \<and> (0 :: real) \<le> 7/8
   \<and> int_float_mul 80 (7/8) = Inr (Some 70)
   \<and> (let ws = chunk_windows (split_ws eighty_words) 80 10 0
      in map (\<lambda>x. length (snd x)) ws = [80, 70, 60, 50]
         \<and> shared_positions (ws ! 0) (ws ! 1) = 70
         \<and> shared_positions (ws ! 1) (ws ! 2) = 60
         \<and> shared_positions (ws ! 2) (ws ! 3) = 50)"
proof -
  let ?ws = "chunk_windows (split_ws eighty_words) 80 10 0"
  have h: "(70 :: int) < 80" "(0 :: int) \<le> 80" "(0 :: real) \<le> 7/8" by simp_all
  from consecutive_chunks_overlap [OF eighty_product h, of eighty_words sample_tables 1]
  have pairs: "\<forall>j. Suc j < length ?ws \<longrightarrow>
      shared_positions (?ws ! j) (?ws ! Suc j) = min 70 (length (snd (?ws ! Suc j)))"
    by simp blast
  have s0: "shared_positions (?ws ! 0) (?ws ! 1) = 70"
    using pairs [rule_format, of 0] eighty_spans(1,3) by simp
  have s1: "shared_positions (?ws ! 1) (?ws ! 2) = 60"
    using pairs [rule_format, of 1] eighty_spans(1,4) by (simp add: numeral_2_eq_2)
  have s2: "shared_positions (?ws ! 2) (?ws ! 3) = 50"
    using pairs [rule_format, of 2] eighty_spans(1,5) by (simp add: numeral_3_eq_3)
  have lens: "map (\<lambda>x. length (snd x)) ?ws = [80, 70, 60, 50]"
    using arg_cong [OF eighty_windows, of "map snd"] by (simp add: case_prod_beta comp_def)
  show ?thesis
    unfolding Let_def using h s0 s1 s2 lens eighty_product eighty_float_product by simp
qed

section \<open>Chunk ids\<close>

lemma config_chunks:
  "chunk_text_with_overlap uc txt p CHUNK_SIZE_WORDS OVERLAP_PERCENTAGE =
     Inr (map (\<lambda>(i, w). mk_chunk uc p w) (chunk_windows (split_ws txt) 350 245 0))"
  using chunk_text_with_overlap_run [OF configured_overlap, of uc "txt" p]
  by (simp add: CHUNK_SIZE_WORDS_def)

lemma page_chunks_page: "c \<in> set (page_chunks uc page_texts p) \<Longrightarrow> page c = p"
  by (auto simp: page_chunks_def config_chunks mk_chunk_def Let_def split: option.splits)

lemma add_chunk_ids_eq:
  "add_chunk_ids cs (n, acc) =
     (n + length cs, acc @ map (\<lambda>(c, k). with_id c k) (zip cs [n..<n + length cs]))"
proof (induction cs arbitrary: n acc)
  case Nil
  show ?case by simp
next
  case (Cons c cs)
  have "[n..<n + length (c # cs)] = n # [Suc n..<Suc n + length cs]"
    by (simp add: upt_rec)
  with Cons [of "n + 1" "acc @ [with_id c n]"] show ?case by simp
qed

lemma zip_ids_append:
  "map f (zip (xs @ ys) [n..<n + (length xs + length ys)]) =
     map f (zip xs [n..<n + length xs])
       @ map f (zip ys [n + length xs..<n + (length xs + length ys)])"
proof -
  have "[n..<n + (length xs + length ys)] =
          [n..<n + length xs] @ [n + length xs..<n + (length xs + length ys)]"
    using upt_add_eq_append [of n "n + length xs" "length ys"] by (simp add: add.assoc)
  then show ?thesis by (simp add: zip_append)
qed

lemma chunk_pages_eq:
  assumes "set ks \<subseteq> fset (fmdom page_texts)"
  shows "chunk_pages uc page_texts ks (n, acc) =
     Inr (n + length (concat (map (page_chunks uc page_texts) ks)),
          acc @ map (\<lambda>(c, k). with_id c k)
                  (zip (concat (map (page_chunks uc page_texts) ks))
                       [n..<n + length (concat (map (page_chunks uc page_texts) ks))]))"
  using assms
proof (induction ks arbitrary: n acc)
  case Nil
  show ?case by simp
next
  case (Cons p ks)
  then obtain t where lk: "fmlookup page_texts p = Some t"
    by (auto simp: fmdom.rep_eq dom_def)
  let ?pc = "page_chunks uc page_texts p"
  let ?rest = "concat (map (page_chunks uc page_texts) ks)"
  have pc: "chunk_text_with_overlap uc t p CHUNK_SIZE_WORDS OVERLAP_PERCENTAGE = Inr ?pc"
    by (simp add: page_chunks_def lk config_chunks)
  have "chunk_pages uc page_texts (p # ks) (n, acc) =
      chunk_pages uc page_texts ks (add_chunk_ids ?pc (n, acc))"
    by (simp add: lk pc)
  also have "\<dots> = chunk_pages uc page_texts ks
      (n + length ?pc, acc @ map (\<lambda>(c, k). with_id c k) (zip ?pc [n..<n + length ?pc]))"
    by (simp add: add_chunk_ids_eq)
  also have "\<dots> = Inr (n + length ?pc + length ?rest,
      (acc @ map (\<lambda>(c, k). with_id c k) (zip ?pc [n..<n + length ?pc]))
        @ map (\<lambda>(c, k). with_id c k)
            (zip ?rest [n + length ?pc..<n + length ?pc + length ?rest]))"
    using Cons.prems by (intro Cons.IH) simp
  finally show ?case
    by (simp add: zip_ids_append add.assoc)
qed

lemma create_chunks_eq:
  "create_chunks uc page_texts =
     (let cs = concat (map (page_chunks uc page_texts) (sorted_list_of_fset (fmdom page_texts)))
      in if cs = [] then Inl ZeroDivisionError
         else Inr (map (\<lambda>(c, k). with_id c k) (zip cs [0..<length cs])))"
  using chunk_pages_eq [of "sorted_list_of_fset (fmdom page_texts)" page_texts uc 0 "[]"]
  by (simp add: create_chunks_def Let_def)

text \<open>A corpus in which no page reaches \<^verbatim>\<open>MIN_CHUNK_SIZE\<close> words ends in the division by zero.\<close>

lemma create_chunks_nothing:
  "concat (map (page_chunks uc page_texts) (sorted_list_of_fset (fmdom page_texts))) = [] \<Longrightarrow>
   create_chunks uc page_texts = Inl ZeroDivisionError"
  by (simp add: create_chunks_eq)

lemma sorted_concat_pages:
  assumes "sorted ks" and "\<And>p c. c \<in> set (f p) \<Longrightarrow> g c = p"
  shows "sorted (map g (concat (map f ks)))"
  using assms(1)
proof (induction ks)
  case Nil
  show ?case by simp
next
  case (Cons k ks)
  have here: "\<forall>x \<in> set (f k). g x = k" using assms(2) by blast
  have later: "\<forall>y \<in> set (concat (map f ks)). k \<le> g y"
    using Cons.prems assms(2) by auto
  have "sorted (map g (f k))"
    using here by (simp add: sorted_wrt_iff_nth_less sorted_wrt_map)
  with Cons here later show ?case
    by (auto simp: sorted_append)
qed

lemma with_id_zip_ids:
  "map chunk_id (map (\<lambda>(c, k). with_id c k) (zip cs ks)) = map snd (zip cs ks)"
  by (auto simp: with_id_def)

lemma with_id_zip_pages:
  "map page (map (\<lambda>(c, k). with_id c k) (zip cs ks)) = map page (map fst (zip cs ks))"
  by (auto simp: with_id_def)

lemma sample_create_chunks:
  "map (\<lambda>c. (chunk_id c, page c, word_count c))
       (case create_chunks sample_tables sample_pages of Inl e \<Rightarrow> [] | Inr cs \<Rightarrow> cs)
     = [(0, 1, 60), (1, 2, 60)]"
  by code_simp

text \<open>
  C8. When \<^verbatim>\<open>create_chunks\<close> returns, the chunk ids are \<open>0, 1, 2, \<dots>\<close> in list order: they
  start at 0, increase strictly, and each chunk's id is its position in the returned
  (and then persisted) list. The list holds the chunks of the pages in ascending page
  order, each page's chunks in the order the chunker made them.
\<close>

theorem create_chunks_ids:
  assumes "create_chunks uc page_texts = Inr all_chunks"
  shows "map chunk_id all_chunks = [0..<length all_chunks]
       \<and> (\<forall>i j. i < j \<and> j < length all_chunks \<longrightarrow>
              chunk_id (all_chunks ! i) < chunk_id (all_chunks ! j))
       \<and> sorted (map page all_chunks)
       \<and> (\<forall>p \<in> fset (fmdom page_texts).
              chunk_text_with_overlap uc (the (fmlookup page_texts p)) p
                CHUNK_SIZE_WORDS OVERLAP_PERCENTAGE = Inr (page_chunks uc page_texts p))
       \<and> (let cs = concat (map (page_chunks uc page_texts)
                              (sorted_list_of_fset (fmdom page_texts)))
          in all_chunks = map (\<lambda>(c, k). with_id c k) (zip cs [0..<length cs]))"
proof -
  let ?ks = "sorted_list_of_fset (fmdom page_texts)"
  let ?cs = "concat (map (page_chunks uc page_texts) ?ks)"
  from assms have all: "all_chunks = map (\<lambda>(c, k). with_id c k) (zip ?cs [0..<length ?cs])"
    by (simp add: create_chunks_eq Let_def split: if_splits)
  then have len: "length all_chunks = length ?cs" by simp
  have "map chunk_id all_chunks = map snd (zip ?cs [0..<length ?cs])"
    unfolding all by (rule with_id_zip_ids)
  then have ids: "map chunk_id all_chunks = [0..<length all_chunks]"
    by (simp add: len)
  have incr: "chunk_id (all_chunks ! i) < chunk_id (all_chunks ! j)"
    if "i < j \<and> j < length all_chunks" for i j
  proof -
    from that have "map chunk_id all_chunks ! i = i" "map chunk_id all_chunks ! j = j"
      unfolding ids by simp_all
    with that show ?thesis by simp
  qed
  have "map page all_chunks = map page (map fst (zip ?cs [0..<length ?cs]))"
    unfolding all by (rule with_id_zip_pages)
  then have "map page all_chunks = map page ?cs" by simp
  moreover have "sorted ?ks"
    by (simp add: sorted_list_of_fset.rep_eq)
  then have "sorted (map page ?cs)"
    by (rule sorted_concat_pages) (rule page_chunks_page)
  ultimately have pages: "sorted (map page all_chunks)" by simp
  have run: "chunk_text_with_overlap uc (the (fmlookup page_texts p)) p
                CHUNK_SIZE_WORDS OVERLAP_PERCENTAGE = Inr (page_chunks uc page_texts p)"
    if "p \<in> fset (fmdom page_texts)" for p
  proof -
    from that obtain t where "fmlookup page_texts p = Some t"
      by (auto simp: fmdom.rep_eq dom_def)
    then show ?thesis by (simp add: page_chunks_def config_chunks)
  qed
  from ids incr pages run all show ?thesis unfolding Let_def by blast
qed

theorem create_chunks_ids_witness:
  "\<exists>all_chunks. create_chunks sample_tables sample_pages = Inr all_chunks
      \<and> map chunk_id all_chunks = [0, 1]
      \<and> map page all_chunks = [1, 2]
      \<and> map word_count all_chunks = [60, 60]"
proof (cases "create_chunks sample_tables sample_pages")
  case (Inl e)
  with sample_create_chunks show ?thesis by simp
next
  case (Inr all_chunks)
  with sample_create_chunks
  have m: "map (\<lambda>c. (chunk_id c, page c, word_count c)) all_chunks = [(0, 1, 60), (1, 2, 60)]"
    by simp
  from arg_cong [OF m, of length] have len: "length all_chunks = 2" by simp
  from create_chunks_ids [OF Inr] have "map chunk_id all_chunks = [0..<length all_chunks]"
    by blast
  then have ids: "map chunk_id all_chunks = [0, 1]"
    by (simp add: len upt_rec numeral_2_eq_2)
  from arg_cong [OF m, of "map (\<lambda>t. fst (snd t))"] have "map page all_chunks = [1, 2]"
    by (simp add: comp_def)
  moreover from arg_cong [OF m, of "map (\<lambda>t. snd (snd t))"]
  have "map word_count all_chunks = [60, 60]"
    by (simp add: comp_def)
  ultimately show ?thesis using Inr ids by simp
qed

section \<open>Section hints\<close>

lemma capital_not_space: "is_capital c \<Longrightarrow> \<not> is_space c"
  by (auto simp: is_capital_def is_space_def)

text \<open>
  The two tests of the loop accept exactly the lines that the pattern and \<^verbatim>\<open>isupper\<close>
  describe.
\<close>

lemma blanks_capital_iff:
  "blanks_capital r \<longleftrightarrow>
     (\<exists>ws c rest. r = ws @ c # rest \<and> ws \<noteq> [] \<and> (\<forall>w \<in> set ws. is_space w) \<and> is_capital c)"
  (is "?lhs \<longleftrightarrow> ?rhs")
proof
  assume l: ?lhs
  define ws where "ws = takeWhile is_space r"
  from l obtain c rest where cr: "dropWhile is_space r = c # rest" "is_capital c"
    by (auto simp: blanks_capital_def split: list.splits)
  have "r = ws @ dropWhile is_space r" by (simp add: ws_def)
  then have "r = ws @ c # rest" using cr(1) by simp
  moreover have "\<forall>w \<in> set ws. is_space w" by (auto simp: ws_def dest: set_takeWhileD)
  moreover have "ws \<noteq> []" using l by (simp add: blanks_capital_def ws_def)
  ultimately show ?rhs using cr(2) by blast
next
  assume ?rhs
  then obtain ws c rest where d: "r = ws @ c # rest" "ws \<noteq> []"
      "\<forall>w \<in> set ws. is_space w" "is_capital c"
    by blast
  have c: "\<not> is_space c" using d(4) by (rule capital_not_space)
  have "takeWhile is_space (ws @ c # rest) = ws"
    using d(3) c by (simp add: takeWhile_append2)
  moreover have "dropWhile is_space (ws @ c # rest) = c # rest"
    using d(3) c by (simp add: dropWhile_append2)
  ultimately show ?lhs unfolding blanks_capital_def d(1) using d(2,4) by simp
qed

lemma after_digits_iff:
  "after_digits r \<longleftrightarrow>
     (\<exists>dot ws c rest. r = dot @ ws @ c # rest \<and> (dot = [] \<or> dot = [46])
        \<and> ws \<noteq> [] \<and> (\<forall>w \<in> set ws. is_space w) \<and> is_capital c)"
  (is "?lhs \<longleftrightarrow> ?rhs")
proof
  assume ?lhs
  then consider "blanks_capital r" | r' where "r = 46 # r'" "blanks_capital r'"
    by (auto simp: after_digits_def split: list.splits)
  then show ?rhs
  proof cases
    case 1
    then obtain ws c rest where "r = [] @ ws @ c # rest" "ws \<noteq> []"
        "\<forall>w \<in> set ws. is_space w" "is_capital c"
      unfolding blanks_capital_iff by auto
    then show ?thesis by blast
  next
    case 2
    then obtain ws c rest where "r = [46] @ ws @ c # rest" "ws \<noteq> []"
        "\<forall>w \<in> set ws. is_space w" "is_capital c"
      unfolding blanks_capital_iff by auto
    then show ?thesis by blast
  qed
next
  assume ?rhs
  then obtain dot ws c rest where d: "r = dot @ ws @ c # rest" "dot = [] \<or> dot = [46]"
      "ws \<noteq> []" "\<forall>w \<in> set ws. is_space w" "is_capital c"
    by blast
  have b: "blanks_capital (ws @ c # rest)"
    unfolding blanks_capital_iff using d(3,4,5) by blast
  from d(2) show ?lhs
  proof
    assume "dot = []"
    with b d(1) show ?thesis by (simp add: after_digits_def)
  next
    assume "dot = [46]"
    with b d(1) show ?thesis by (simp add: after_digits_def)
  qed
qed

lemma heading_match_digits:
  "heading_match uc line \<longleftrightarrow>
     (\<exists>ds r. line = ds @ r \<and> ds \<noteq> [] \<and> (\<forall>d \<in> set ds. decimal uc d) \<and> after_digits r)"
proof (induction line)
  case Nil
  show ?case by simp
next
  case (Cons c cs)
  show ?case (is "?lhs \<longleftrightarrow> ?rhs")
  proof
    assume l: ?lhs
    then have c: "decimal uc c" by simp
    from l consider "after_digits cs" | "heading_match uc cs" by auto
    then show ?rhs
    proof cases
      case 1
      with c have "c # cs = [c] @ cs \<and> [c] \<noteq> [] \<and> (\<forall>d \<in> set [c]. decimal uc d)
                   \<and> after_digits cs"
        by simp
      then show ?thesis by blast
    next
      case 2
      with Cons.IH obtain ds r where "cs = ds @ r" "\<forall>d \<in> set ds. decimal uc d"
          "after_digits r"
        by blast
      with c have "c # cs = (c # ds) @ r \<and> c # ds \<noteq> []
                   \<and> (\<forall>d \<in> set (c # ds). decimal uc d) \<and> after_digits r"
        by simp
      then show ?thesis by blast
    qed
  next
    assume ?rhs
    then obtain ds r where d: "c # cs = ds @ r" "ds \<noteq> []" "\<forall>d \<in> set ds. decimal uc d"
        "after_digits r"
      by blast
    from d(2) obtain d' ds' where ds: "ds = d' # ds'" by (cases ds) auto
    with d(1,3) have c: "decimal uc c" and cs: "cs = ds' @ r" by auto
    show ?lhs
    proof (cases "ds' = []")
      case True
      with cs d(4) c show ?thesis by simp
    next
      case False
      with cs d(3,4) ds have "heading_match uc cs"
        unfolding Cons.IH by auto
      with c show ?thesis by simp
    qed
  qed
qed

lemma heading_match_numbered: "heading_match uc line \<longleftrightarrow> numbered_line uc line"
  unfolding heading_match_digits after_digits_iff numbered_line_def by blast

lemma py_isupper_upper_case: "py_isupper uc line \<longleftrightarrow> upper_case_line uc line"
  by (auto simp: py_isupper_def upper_case_line_def list_ex_iff)

lemma heading_line_test:
  "heading_line uc line \<longleftrightarrow>
     length line > 5 \<and> length line < 100 \<and> (py_isupper uc line \<or> heading_match uc line)"
  by (auto simp: heading_line_def heading_match_numbered py_isupper_upper_case)

lemma first_heading_find:
  "first_heading uc ls = find (heading_line uc) (map strip ls)"
  by (induction ls) (simp_all add: heading_line_test Let_def)

text \<open>
  The lines and the stripping that the theorem below speaks of: the lines of a text
  joined by newlines are the text, and no line holds a newline; stripping a line removes
  a run of blanks at each end and leaves no blank at either end.
\<close>

lemma split_on_nonempty: "split_on d s \<noteq> []"
  by (induction s) (auto split: list.splits)

lemma split_on_join: "str_join [d] (split_on d s) = s"
proof (induction s)
  case Nil
  show ?case by simp
next
  case (Cons c cs)
  obtain l ls where sp: "split_on d cs = l # ls"
    using split_on_nonempty [of d cs] by (cases "split_on d cs") auto
  from Cons sp show ?case by (cases ls) auto
qed

lemma split_on_lines: "l \<in> set (split_on d s) \<Longrightarrow> d \<notin> set l"
proof (induction s arbitrary: l)
  case Nil
  then show ?case by simp
next
  case (Cons c cs)
  obtain k ks where sp: "split_on d cs = k # ks"
    using split_on_nonempty [of d cs] by (cases "split_on d cs") auto
  from Cons.prems sp Cons.IH [of k] Cons.IH [of l] show ?case
    by (auto split: if_splits)
qed

lemma strip_trims:
  "\<exists>a b. s = a @ strip s @ b \<and> (\<forall>c \<in> set a. is_space c) \<and> (\<forall>c \<in> set b. is_space c)
         \<and> (strip s = [] \<or> (\<not> is_space (hd (strip s)) \<and> \<not> is_space (last (strip s))))"
proof -
  define a where "a = takeWhile is_space s"
  define m where "m = dropWhile is_space s"
  define b where "b = rev (takeWhile is_space (rev m))"
  have st: "strip s = rev (dropWhile is_space (rev m))" by (simp add: strip_def m_def)
  have "rev (takeWhile is_space (rev m) @ dropWhile is_space (rev m)) = rev (rev m)"
    by (simp only: takeWhile_dropWhile_id)
  then have "rev (dropWhile is_space (rev m)) @ rev (takeWhile is_space (rev m)) = m"
    by (simp only: rev_append rev_rev_ident)
  then have m: "m = strip s @ b" by (simp only: st b_def)
  have "s = a @ m" by (simp add: a_def m_def)
  with m have "s = a @ strip s @ b" by simp
  moreover have "\<forall>c \<in> set a. is_space c" by (auto simp: a_def dest: set_takeWhileD)
  moreover have "\<forall>c \<in> set b. is_space c" by (auto simp: b_def dest: set_takeWhileD)
  moreover have "strip s = [] \<or> (\<not> is_space (hd (strip s)) \<and> \<not> is_space (last (strip s)))"
  proof (cases "strip s = []")
    case True
    then show ?thesis by simp
  next
    case False
    then have ne: "dropWhile is_space (rev m) \<noteq> []" by (simp add: st)
    then have "\<not> is_space (hd (dropWhile is_space (rev m)))" by (rule hd_dropWhile)
    then have la: "\<not> is_space (last (strip s))" using ne by (simp add: st last_rev)
    from False m have "m \<noteq> []" by auto
    then have "\<not> is_space (hd m)" unfolding m_def by (rule hd_dropWhile)
    with False m have "\<not> is_space (hd (strip s))" by (metis hd_append2)
    with la show ?thesis by simp
  qed
  ultimately show ?thesis by blast
qed

text \<open>
  The character tables are read at the characters of the text only: two tables that agree
  on them give the same section hint.
\<close>

lemma same_classes_subset: "same_classes uc uc' s \<Longrightarrow> set r \<subseteq> set s \<Longrightarrow> same_classes uc uc' r"
  by (auto simp: same_classes_def)

lemma py_isupper_classes: "same_classes uc uc' s \<Longrightarrow> py_isupper uc s = py_isupper uc' s"
  by (simp add: py_isupper_def same_classes_def list_ex_iff)

lemma heading_match_classes:
  "same_classes uc uc' s \<Longrightarrow> heading_match uc s = heading_match uc' s"
  by (induction s) (auto simp: same_classes_def)

lemma set_strip: "set (strip s) \<subseteq> set s"
proof -
  have "set (strip s) \<subseteq> set (dropWhile is_space s)"
    unfolding strip_def using set_dropWhileD [of _ is_space "rev (dropWhile is_space s)"]
    by auto
  also have "\<dots> \<subseteq> set s" using set_dropWhileD [of _ is_space s] by auto
  finally show ?thesis .
qed

lemma split_on_set: "l \<in> set (split_on d s) \<Longrightarrow> set l \<subseteq> set s"
proof (induction s arbitrary: l)
  case Nil
  then show ?case by simp
next
  case (Cons c cs)
  obtain k ks where sp: "split_on d cs = k # ks"
    using split_on_nonempty [of d cs] by (cases "split_on d cs") auto
  from Cons.prems sp Cons.IH [of k] Cons.IH [of l] show ?case
    by (auto split: if_splits)
qed

lemma first_heading_classes:
  "(\<forall>l \<in> set ls. same_classes uc uc' l) \<Longrightarrow> first_heading uc ls = first_heading uc' ls"
proof (induction ls)
  case Nil
  show ?case by simp
next
  case (Cons l ls)
  then have "same_classes uc uc' (strip l)"
    using same_classes_subset [OF _ set_strip, of uc uc' l] by simp
  then have "py_isupper uc (strip l) = py_isupper uc' (strip l)"
        and "heading_match uc (strip l) = heading_match uc' (strip l)"
    by (simp_all add: py_isupper_classes heading_match_classes)
  with Cons show ?case by (simp add: Let_def)
qed

lemma extract_section_hint_classes:
  assumes "same_classes uc uc' txt"
  shows "extract_section_hint uc txt = extract_section_hint uc' txt"
proof -
  have "same_classes uc uc' l" if "l \<in> set (take 3 (split_on 10 txt))" for l
  proof -
    from that have "l \<in> set (split_on 10 txt)" by (rule in_set_takeD)
    then have "set l \<subseteq> set txt" by (rule split_on_set)
    with assms show ?thesis by (rule same_classes_subset)
  qed
  then have "first_heading uc (take 3 (split_on 10 txt))
               = first_heading uc' (take 3 (split_on 10 txt))"
    by (intro first_heading_classes) blast
  then show ?thesis by (simp add: extract_section_hint_def)
qed

text \<open>
  C7 (amended). Take the first three lines of the chunk text, each stripped of the
  whitespace around it. A heading is such a line of 6 to 99 characters that is upper-case
  (some upper-case character, no lower-case or title-case one) or opens with one or more
  decimal digits, an optional period, one or more blanks and a capital letter \<open>A\<close> to \<open>Z\<close>.
  The section hint is the first heading among these lines; when none of them is a heading
  it is the first 50 characters of the text with each newline replaced by a space, stripped,
  and followed by three dots.
\<close>

theorem section_hint_first_heading:
  "let ls = map strip (take 3 (split_on 10 txt)) in
     (\<forall>i < length ls.
         heading_line uc (ls ! i) \<and> (\<forall>j < i. \<not> heading_line uc (ls ! j))
           \<longrightarrow> extract_section_hint uc txt = ls ! i)
     \<and> ((\<forall>i < length ls. \<not> heading_line uc (ls ! i))
           \<longrightarrow> extract_section_hint uc txt
                 = strip (replace_char 10 32 (take 50 txt)) @ ustr ''...'')"
proof -
  define ls where "ls = map strip (take 3 (split_on 10 txt))"
  have fh: "first_heading uc (take 3 (split_on 10 txt)) = find (heading_line uc) ls"
    by (simp add: first_heading_find ls_def)
  have "extract_section_hint uc txt = ls ! i"
    if "i < length ls" "heading_line uc (ls ! i)" "\<forall>j < i. \<not> heading_line uc (ls ! j)" for i
  proof -
    from that have "find (heading_line uc) ls = Some (ls ! i)"
      unfolding find_Some_iff by blast
    then show ?thesis by (simp add: extract_section_hint_def fh)
  qed
  moreover have "extract_section_hint uc txt
                   = strip (replace_char 10 32 (take 50 txt)) @ ustr ''...''"
    if "\<forall>i < length ls. \<not> heading_line uc (ls ! i)"
  proof -
    from that have "find (heading_line uc) ls = None"
      unfolding find_None_iff by (metis in_set_conv_nth)
    then show ?thesis by (simp add: extract_section_hint_def fh)
  qed
  ultimately show ?thesis unfolding Let_def ls_def [symmetric] by blast
qed

text \<open>
  A chunk that opens \<open>1 A\<close>, without a period after the number, is its own section
  hint, where the specification's pattern finds no heading and falls back to the prefix.
\<close>

theorem section_hint_counterexample:
  "extract_section_hint sample_tables numbered_page = numbered_page
   \<and> length numbered_page = 99
   \<and> \<not> py_isupper sample_tables numbered_page
   \<and> \<not> spec_heading_pattern sample_tables numbered_page
   \<and> spec_section_hint sample_tables numbered_page
       \<noteq> extract_section_hint sample_tables numbered_page"
  by code_simp

theorem section_hint_first_heading_witness:
  "extract_section_hint sample_tables
       (ustr ''intro'' @ [10] @ ustr ''  FORMAT RULES  '' @ [10] @ ustr ''body'')
     = ustr ''FORMAT RULES''
   \<and> \<not> heading_line sample_tables (ustr ''intro'')
   \<and> heading_line sample_tables (ustr ''FORMAT RULES'')
   \<and> extract_section_hint sample_tables (ustr ''3 Scope of work'') = ustr ''3 Scope of work''
   \<and> extract_section_hint sample_tables (ustr ''ABCDEF '' @ [233]) = ustr ''ABCDEF '' @ [233] @ ustr ''...''
   \<and> \<not> heading_line sample_tables (ustr ''ABCDEF '' @ [233])
   \<and> extract_section_hint sample_tables (ustr ''a  b'' @ [10] @ ustr ''c '') = ustr ''a  b c...''"
proof -
  define t where "t = ustr ''intro'' @ [10] @ ustr ''  FORMAT RULES  '' @ [10] @ ustr ''body''"
  define n where "n = ustr ''3 Scope of work''"
  define e where "e = ustr ''ABCDEF '' @ [233]"
  define b where "b = ustr ''a  b'' @ [10] @ ustr ''c ''"
  have lt: "map strip (take 3 (split_on 10 t))
              = [ustr ''intro'', ustr ''FORMAT RULES'', ustr ''body'']"
    unfolding t_def by code_simp
  have ln: "map strip (take 3 (split_on 10 n)) = [ustr ''3 Scope of work'']"
    unfolding n_def by code_simp
  have le: "map strip (take 3 (split_on 10 e)) = [ustr ''ABCDEF '' @ [233]]"
    unfolding e_def by code_simp
  have lb: "map strip (take 3 (split_on 10 b)) = [ustr ''a  b'', ustr ''c'']"
    unfolding b_def by code_simp
  have t0: "\<not> heading_line sample_tables (ustr ''intro'')"
    unfolding heading_line_test by code_simp
  have t1: "heading_line sample_tables (ustr ''FORMAT RULES'')"
    unfolding heading_line_test by code_simp
  have n0: "heading_line sample_tables (ustr ''3 Scope of work'')"
    unfolding heading_line_test by code_simp
  have e0: "\<not> heading_line sample_tables (ustr ''ABCDEF '' @ [233])"
    unfolding heading_line_test by code_simp
  have b0: "\<not> heading_line sample_tables (ustr ''a  b'')"
    unfolding heading_line_test by code_simp
  have b1: "\<not> heading_line sample_tables (ustr ''c'')"
    unfolding heading_line_test by code_simp
  have fe: "strip (replace_char 10 32 (take 50 e)) @ ustr ''...''
              = ustr ''ABCDEF '' @ [233] @ ustr ''...''"
    unfolding e_def by code_simp
  have fb: "strip (replace_char 10 32 (take 50 b)) @ ustr ''...'' = ustr ''a  b c...''"
    unfolding b_def by code_simp
  note ht = section_hint_first_heading [of t sample_tables, unfolded Let_def lt]
  note hn = section_hint_first_heading [of n sample_tables, unfolded Let_def ln]
  note he = section_hint_first_heading [of e sample_tables, unfolded Let_def le fe]
  note hb = section_hint_first_heading [of b sample_tables, unfolded Let_def lb fb]
  have "extract_section_hint sample_tables t = ustr ''FORMAT RULES''"
    using ht [THEN conjunct1, rule_format, of 1] t0 t1 by simp
  moreover have "extract_section_hint sample_tables n = ustr ''3 Scope of work''"
    using hn [THEN conjunct1, rule_format, of 0] n0 by simp
  moreover have "extract_section_hint sample_tables e = ustr ''ABCDEF '' @ [233] @ ustr ''...''"
    using he [THEN conjunct2] e0 by simp
  moreover have "extract_section_hint sample_tables b = ustr ''a  b c...''"
    using hb [THEN conjunct2] b0 b1 by (auto simp: less_Suc_eq numeral_2_eq_2)
  ultimately show ?thesis using t0 t1 e0 unfolding t_def n_def e_def b_def by simp
qed

section \<open>Formatting the answer\<close>

lemma map_of_append_entry:
  "map_of (map (\<lambda>(p, cs). if p = k then (p, cs @ [c]) else (p, cs)) xs) q =
     (if q = k then map_option (\<lambda>cs. cs @ [c]) (map_of xs q) else map_of xs q)"
  by (induction xs) auto

lemma group_add_keys:
  "map fst (group_add g c) =
     (if page c \<in> fst ` set g then map fst g else map fst g @ [page c])"
proof -
  have "map fst (map (\<lambda>(p, cs). if p = k then (p, cs @ [c]) else (p, cs)) xs) = map fst xs"
    for k and xs :: "(int \<times> 'a chunk_scheme list) list"
    by (induction xs) auto
  then show ?thesis
    by (auto simp: group_add_def Let_def map_of_eq_None_iff)
qed

lemma group_add_distinct:
  "distinct (map fst g) \<Longrightarrow> distinct (map fst (group_add g c))"
  by (simp add: group_add_keys)

lemma group_add_entries:
  "entries (group_add g c) p = (if p = page c then entries g p @ [c] else entries g p)"
  by (auto simp: entries_def group_add_def Let_def map_of_append_entry
           split: option.splits)

lemma foldl_group_keys:
  "fst ` set (foldl group_add g cs) = fst ` set g \<union> page ` set cs"
proof (induction cs arbitrary: g)
  case Nil
  show ?case by simp
next
  case (Cons c cs)
  have "fst ` set (group_add g c) = insert (page c) (fst ` set g)"
    using group_add_keys [of g c] by (metis (no_types, lifting) Un_insert_right
        insert_absorb list.set(1,2) set_append set_map sup_bot.right_neutral)
  with Cons show ?case by auto
qed

lemma foldl_group_distinct:
  "distinct (map fst g) \<Longrightarrow> distinct (map fst (foldl group_add g cs))"
  by (induction cs arbitrary: g) (simp_all add: group_add_distinct)

lemma foldl_group_entries:
  "entries (foldl group_add g cs) p = entries g p @ filter (\<lambda>c. page c = p) cs"
  by (induction cs arbitrary: g) (auto simp: group_add_entries)

lemma sort_key_fst_items:
  assumes "distinct (map fst xs)"
  shows "sort_key fst xs = map (\<lambda>k. (k, entries xs k)) (sorted_list_of_set (fst ` set xs))"
proof -
  let ?ys = "sort_key fst xs"
  have inj: "inj_on fst (set xs)" and dx: "distinct xs"
    using assms by (simp_all add: distinct_map)
  have "distinct (map fst ?ys)"
    using inj dx by (simp add: distinct_map)
  moreover have "sorted (map fst ?ys)" by (rule sorted_sort_key)
  moreover have "set (map fst ?ys) = fst ` set xs" by simp
  ultimately have keys: "map fst ?ys = sorted_list_of_set (fst ` set xs)"
    by (metis List.finite_set distinct_sorted_list_of_set set_sorted_list_of_set
        sorted_distinct_set_unique sorted_sorted_list_of_set)
  have "(fst e, entries xs (fst e)) = e" if "e \<in> set ?ys" for e
  proof -
    from that have "e \<in> set xs" by simp
    then have "map_of xs (fst e) = Some (snd e)"
      using assms map_of_is_SomeI [of xs "fst e" "snd e"] by simp
    then show ?thesis by (simp add: entries_def)
  qed
  then have "map (\<lambda>e. (fst e, entries xs (fst e))) ?ys = ?ys"
    by (rule map_idI)
  moreover have "map (\<lambda>e. (fst e, entries xs (fst e))) ?ys =
                   map (\<lambda>k. (k, entries xs k)) (map fst ?ys)"
    by simp
  ultimately show ?thesis using keys by simp
qed

text \<open>
  C4. The formatter returns the decline string for no chunks; otherwise it groups the
  chunks by page in arrival order, walks the pages in ascending order, joins a page's
  texts with a newline, appends the page citation and joins the pages with a blank line.
\<close>

theorem format_groups_by_page: "format_retrieved_chunks chunks = spec_format chunks"
proof (cases "chunks = []")
  case True
  then show ?thesis by (simp add: format_retrieved_chunks_def spec_format_def)
next
  case False
  let ?g = "foldl group_add [] chunks"
  have d: "distinct (map fst ?g)" by (rule foldl_group_distinct) simp
  have k: "fst ` set ?g = page ` set chunks" by (simp add: foldl_group_keys)
  have e: "entries ?g p = filter (\<lambda>c. page c = p) chunks" for p
    using foldl_group_entries [of "[]" chunks p] by (simp add: entries_def)
  have "sort_key fst ?g =
          map (\<lambda>p. (p, filter (\<lambda>c. page c = p) chunks)) (sorted_list_of_set (page ` set chunks))"
    using sort_key_fst_items [OF d] by (simp add: k e)
  with False show ?thesis
    by (simp add: format_retrieved_chunks_def spec_format_def Let_def page_part_def comp_def)
qed

theorem format_groups_by_page_witness:
  "format_retrieved_chunks [sample_meta ! 1, sample_meta ! 3, sample_meta ! 4, sample_meta ! 0] =
     ustr ''Number all pages.'' @ [10] @ ustr ''Margins must be one inch on all sides. (p. 1)''
     @ [10, 10] @ ustr ''Headings use 12pt bold font. (p. 2)''
     @ [10, 10] @ ustr ''Use endnotes. (p. 3)''
   \<and> format_retrieved_chunks ([] :: chunk list) = ustr ''I don't have that in the handbook.''"
  unfolding format_groups_by_page
  by code_simp

section \<open>The relevance gate\<close>

lemma tier_names_differ:
  "ustr ''high'' \<noteq> ustr ''low''" "ustr ''medium'' \<noteq> ustr ''low''"
  "ustr ''high'' \<noteq> ustr ''medium''" "ustr ''medium'' \<noteq> ustr ''high''"
  by (simp_all add: ustr_def)

lemma py_max_Max: "xs \<noteq> [] \<Longrightarrow> py_max xs = Max (set xs)"
proof (cases xs)
  case Nil
  assume "xs \<noteq> []"
  with Nil show ?thesis by simp
next
  case (Cons x rest)
  have "fold max rest x = Max (set (x # rest))"
    by (rule Max.set_eq_fold [symmetric])
  with Cons show ?thesis by (simp add: py_max_def)
qed

lemma check_relevance_iff:
  "check_relevance rs \<longleftrightarrow> rs \<noteq> [] \<and> SIMILARITY_THRESHOLD \<le> Max (score ` set rs)"
  by (simp add: check_relevance_def py_max_Max)

lemma ask_declined:
  "retrieve a question None = Inr rs \<Longrightarrow> \<not> check_relevance rs \<Longrightarrow> ask a question = Inr declined"
  by (simp add: ask_def)

lemma ask_answered:
  "retrieve a question None = Inr rs \<Longrightarrow> check_relevance rs \<Longrightarrow>
   ask a question =
     Inr \<lparr>answer = format_retrieved_chunks rs, sources = rs, pages = get_unique_pages rs,
          confidence = (if score (hd rs) > 0.5 then ustr ''high'' else ustr ''medium''),
          max_score = score (hd rs)\<rparr>"
  by (cases rs) (simp_all add: ask_def py_getitem_def check_relevance_def)

lemma sample_retrieve_margins:
  "retrieve sample_assistant (ustr ''margins'') None =
     Inr [with_score (sample_meta ! 0) (1/4), with_score (sample_meta ! 2) (1/5),
          with_score (sample_meta ! 1) (1/10), with_score (sample_meta ! 3) (1/20),
          with_score (sample_meta ! 4) 0]"
  by code_simp

lemma sample_retrieve_weather:
  "retrieve sample_assistant (ustr ''weather'') None =
     Inr [with_score (sample_meta ! 0) (6/25), with_score (sample_meta ! 2) (1/5),
          with_score (sample_meta ! 1) (1/10), with_score (sample_meta ! 3) (1/20),
          with_score (sample_meta ! 4) 0]"
  by code_simp

lemma sample_retrieve_fonts:
  "retrieve sample_assistant (ustr ''fonts'') None =
     Inr [with_score (sample_meta ! 1) (3/4), with_score (sample_meta ! 2) (3/10),
          with_score (sample_meta ! 3) (1/5), with_score (sample_meta ! 0) (1/10),
          with_score (sample_meta ! 4) 0]"
  by code_simp

lemma sample_retrieve_spacing:
  "retrieve sample_assistant (ustr ''spacing'') None =
     Inr [with_score (sample_meta ! 2) (1/2), with_score (sample_meta ! 1) (3/10),
          with_score (sample_meta ! 3) (1/5), with_score (sample_meta ! 0) (1/10),
          with_score (sample_meta ! 4) 0]"
  by code_simp

lemma answered_not_declined:
  "rs \<noteq> [] \<Longrightarrow>
   \<lparr>answer = t, sources = rs, pages = ps, confidence = c, max_score = m\<rparr> \<noteq> declined"
  by (simp add: declined_def)

lemma gate_fails_iff: "\<not> check_relevance rs \<longleftrightarrow> highest_score rs < SIMILARITY_THRESHOLD"
  by (auto simp: check_relevance_iff highest_score_def SIMILARITY_THRESHOLD_def)

lemma ask_result_cases:
  assumes "retrieve a question None = Inr rs" and "ask a question = Inr r"
  shows "(r = declined \<and> \<not> check_relevance rs) \<or>
         (r \<noteq> declined \<and> check_relevance rs \<and> rs \<noteq> [] \<and>
          r = \<lparr>answer = format_retrieved_chunks rs, sources = rs, pages = get_unique_pages rs,
               confidence = (if score (hd rs) > 0.5 then ustr ''high'' else ustr ''medium''),
               max_score = score (hd rs)\<rparr>)"
proof (cases "check_relevance rs")
  case False
  with assms ask_declined [OF assms(1) False] show ?thesis by simp
next
  case True
  then have ne: "rs \<noteq> []" by (simp add: check_relevance_iff)
  from ask_answered [OF assms(1) True] assms(2) True ne show ?thesis
    by (simp add: answered_not_declined)
qed

text \<open>
  C2. With \<open>max_score\<close> the highest retrieved score (0 when nothing was retrieved), the
  outcome is the declined one exactly when \<open>max_score\<close> is strictly below the threshold:
  then the answer is the fixed decline string, the sources and the pages are empty and the
  confidence is \<open>low\<close>. At or above the threshold (equality included) the question is
  answered from the retrieved chunks.
\<close>

theorem relevance_gate:
  assumes "retrieve a question None = Inr rs"
  shows "(ask a question = Inr declined \<longleftrightarrow> highest_score rs < SIMILARITY_THRESHOLD)
       \<and> (highest_score rs < SIMILARITY_THRESHOLD \<longrightarrow>
            (\<exists>r. ask a question = Inr r \<and> answer r = decline_message \<and> sources r = []
                 \<and> pages r = [] \<and> confidence r = ustr ''low''))
       \<and> (SIMILARITY_THRESHOLD \<le> highest_score rs \<longrightarrow>
            (\<exists>r. ask a question = Inr r \<and> r \<noteq> declined \<and> answer r = format_retrieved_chunks rs
                 \<and> sources r = rs \<and> rs \<noteq> [] \<and> confidence r \<noteq> ustr ''low''))"
proof (cases "check_relevance rs")
  case False
  then have low: "highest_score rs < SIMILARITY_THRESHOLD" by (simp add: gate_fails_iff)
  have "ask a question = Inr declined" by (rule ask_declined [OF assms False])
  with low show ?thesis by (simp add: declined_def)
next
  case True
  then have ne: "rs \<noteq> []" by (simp add: check_relevance_iff)
  from True have high: "SIMILARITY_THRESHOLD \<le> highest_score rs"
    using gate_fails_iff [of rs] by simp
  from ask_answered [OF assms True] ne high show ?thesis
    by (simp add: answered_not_declined tier_names_differ)
qed

lemma highest_margins:
  "highest_score [with_score (sample_meta ! 0) (1/4), with_score (sample_meta ! 2) (1/5),
          with_score (sample_meta ! 1) (1/10), with_score (sample_meta ! 3) (1/20),
          with_score (sample_meta ! 4) 0] = 1/4"
  by (simp add: highest_score_def with_score_def)

lemma highest_weather:
  "highest_score [with_score (sample_meta ! 0) (6/25), with_score (sample_meta ! 2) (1/5),
          with_score (sample_meta ! 1) (1/10), with_score (sample_meta ! 3) (1/20),
          with_score (sample_meta ! 4) 0] = 6/25"
  by (simp add: highest_score_def with_score_def)

theorem relevance_gate_witness:
  "(\<exists>rs. retrieve sample_assistant (ustr ''margins'') None = Inr rs
        \<and> highest_score rs = SIMILARITY_THRESHOLD
        \<and> (\<exists>r. ask sample_assistant (ustr ''margins'') = Inr r \<and> r \<noteq> declined \<and> sources r = rs))
   \<and> (\<exists>rs. retrieve sample_assistant (ustr ''weather'') None = Inr rs
        \<and> highest_score rs = 6/25
        \<and> ask sample_assistant (ustr ''weather'') = Inr declined)"
proof -
  have "\<exists>r. ask sample_assistant (ustr ''margins'') = Inr r \<and> r \<noteq> declined \<and> sources r =
          [with_score (sample_meta ! 0) (1/4), with_score (sample_meta ! 2) (1/5),
          with_score (sample_meta ! 1) (1/10), with_score (sample_meta ! 3) (1/20),
          with_score (sample_meta ! 4) 0]"
    using relevance_gate [OF sample_retrieve_margins] highest_margins
    by (simp add: SIMILARITY_THRESHOLD_def) blast
  moreover have "ask sample_assistant (ustr ''weather'') = Inr declined"
    using relevance_gate [OF sample_retrieve_weather] highest_weather
    by (simp add: SIMILARITY_THRESHOLD_def)
  ultimately show ?thesis
    using sample_retrieve_margins sample_retrieve_weather highest_margins highest_weather
    by (simp add: SIMILARITY_THRESHOLD_def)
qed

text \<open>
  C3. When the question is answered, the source list is the whole retrieved sequence in
  retrieval order; the threshold never removes single chunks.
\<close>

theorem answered_sources_complete:
  assumes "retrieve a question None = Inr rs"
      and "ask a question = Inr r"
      and "r \<noteq> declined"
  shows "sources r = rs"
  using ask_result_cases [OF assms(1,2)] assms(3) by auto

theorem answered_sources_complete_witness:
  "\<exists>rs r. retrieve sample_assistant (ustr ''margins'') None = Inr rs
        \<and> ask sample_assistant (ustr ''margins'') = Inr r \<and> r \<noteq> declined
        \<and> sources r = rs \<and> length (sources r) = TOP_K
        \<and> map chunk_id (filter (\<lambda>c. score c < SIMILARITY_THRESHOLD) (sources r)) = [2, 1, 3, 4]"
proof -
  let ?rs = "[with_score (sample_meta ! 0) (1/4), with_score (sample_meta ! 2) (1/5),
          with_score (sample_meta ! 1) (1/10), with_score (sample_meta ! 3) (1/20),
          with_score (sample_meta ! 4) 0]"
  have chk: "check_relevance ?rs"
    using gate_fails_iff [of ?rs] highest_margins by (simp add: SIMILARITY_THRESHOLD_def)
  obtain r where r: "ask sample_assistant (ustr ''margins'') = Inr r" "r \<noteq> declined"
    using ask_answered [OF sample_retrieve_margins chk] by (simp add: answered_not_declined)
  have "sources r = ?rs"
    by (rule answered_sources_complete [OF sample_retrieve_margins r])
  then have src: "sources r = ?rs" "length (sources r) = TOP_K"
      "map chunk_id (filter (\<lambda>c. score c < SIMILARITY_THRESHOLD) (sources r)) = [2, 1, 3, 4]"
    by (simp_all add: TOP_K_def SIMILARITY_THRESHOLD_def with_score_def sample_meta_def)
  show ?thesis
    by (rule exI [of _ ?rs], rule exI [of _ r])
       (intro conjI sample_retrieve_margins r src)
qed

lemma descending_head_is_highest:
  assumes "rs \<noteq> []" and "sorted_wrt (\<ge>) (map score rs)"
  shows "score (hd rs) = highest_score rs"
proof (cases rs)
  case Nil
  with assms(1) show ?thesis by simp
next
  case (Cons c cs)
  with assms(2) have "\<forall>d \<in> set cs. score d \<le> score c" by simp
  then have "Max (score ` set (c # cs)) = score c"
    by (intro Max_eqI) auto
  with Cons show ?thesis by (simp add: highest_score_def)
qed

text \<open>
  C9. When the question is answered, \<open>max_score\<close> is the score of the top retrieved chunk,
  and the confidence is \<open>high\<close> exactly when that score is strictly above 0.5 and
  \<open>medium\<close> otherwise. The top chunk is the first one; it carries the highest score
  whenever the index lists its hits by descending score.
\<close>

theorem confidence_tier:
  assumes "retrieve a question None = Inr rs"
      and "ask a question = Inr r"
      and "r \<noteq> declined"
  shows "rs \<noteq> [] \<and> max_score r = score (hd rs)
       \<and> (confidence r = ustr ''high'' \<longleftrightarrow> 0.5 < score (hd rs))
       \<and> (confidence r = ustr ''medium'' \<longleftrightarrow> score (hd rs) \<le> 0.5)
       \<and> (sorted_wrt (\<ge>) (map score rs) \<longrightarrow> score (hd rs) = highest_score rs)"
proof -
  from ask_result_cases [OF assms(1,2)] assms(3)
  have ne: "rs \<noteq> []"
    and r: "r = \<lparr>answer = format_retrieved_chunks rs, sources = rs, pages = get_unique_pages rs,
               confidence = (if score (hd rs) > 0.5 then ustr ''high'' else ustr ''medium''),
               max_score = score (hd rs)\<rparr>"
    by auto
  from r have "max_score r = score (hd rs)"
    and "confidence r = ustr ''high'' \<longleftrightarrow> 0.5 < score (hd rs)"
    and "confidence r = ustr ''medium'' \<longleftrightarrow> score (hd rs) \<le> 0.5"
    by (auto simp: tier_names_differ)
  with ne descending_head_is_highest [OF ne] show ?thesis by blast
qed

theorem confidence_tier_witness:
  "(\<exists>rs r. retrieve sample_assistant (ustr ''fonts'') None = Inr rs
        \<and> ask sample_assistant (ustr ''fonts'') = Inr r \<and> r \<noteq> declined
        \<and> highest_score rs = 3/4 \<and> max_score r = 3/4 \<and> confidence r = ustr ''high'')
   \<and> (\<exists>rs r. retrieve sample_assistant (ustr ''spacing'') None = Inr rs
        \<and> ask sample_assistant (ustr ''spacing'') = Inr r \<and> r \<noteq> declined
        \<and> highest_score rs = 1/2 \<and> max_score r = 1/2 \<and> confidence r = ustr ''medium'')"
proof -
  let ?f = "[with_score (sample_meta ! 1) (3/4), with_score (sample_meta ! 2) (3/10),
          with_score (sample_meta ! 3) (1/5), with_score (sample_meta ! 0) (1/10),
          with_score (sample_meta ! 4) 0]"
  let ?s = "[with_score (sample_meta ! 2) (1/2), with_score (sample_meta ! 1) (3/10),
          with_score (sample_meta ! 3) (1/5), with_score (sample_meta ! 0) (1/10),
          with_score (sample_meta ! 4) 0]"
  have hf: "highest_score ?f = 3/4" and hs: "highest_score ?s = 1/2"
    by (simp_all add: highest_score_def with_score_def)
  have cf: "check_relevance ?f" and cs: "check_relevance ?s"
    using gate_fails_iff [of ?f] gate_fails_iff [of ?s] hf hs
    by (simp_all add: SIMILARITY_THRESHOLD_def)
  obtain rf where rf: "ask sample_assistant (ustr ''fonts'') = Inr rf" "rf \<noteq> declined"
    using ask_answered [OF sample_retrieve_fonts cf] by (simp add: answered_not_declined)
  obtain rs where rs: "ask sample_assistant (ustr ''spacing'') = Inr rs" "rs \<noteq> declined"
    using ask_answered [OF sample_retrieve_spacing cs] by (simp add: answered_not_declined)
  have "max_score rf = 3/4 \<and> confidence rf = ustr ''high''"
    using confidence_tier [OF sample_retrieve_fonts rf] by (simp add: with_score_def)
  moreover have "max_score rs = 1/2 \<and> confidence rs = ustr ''medium''"
    using confidence_tier [OF sample_retrieve_spacing rs] by (simp add: with_score_def)
  ultimately show ?thesis
    using rf rs hf hs sample_retrieve_fonts sample_retrieve_spacing by blast
qed

text \<open>
  C10. When the gate declines, the reported \<open>max_score\<close> is 0, whatever the scores of the
  retrieved chunks were.
\<close>

theorem declined_reports_zero:
  assumes "retrieve a question None = Inr rs"
      and "highest_score rs < SIMILARITY_THRESHOLD"
  shows "\<exists>r. ask a question = Inr r \<and> r = declined \<and> max_score r = 0"
proof -
  from assms(2) have "\<not> check_relevance rs" by (simp add: gate_fails_iff)
  from ask_declined [OF assms(1) this] show ?thesis by (simp add: declined_def)
qed

theorem declined_reports_zero_witness:
  "\<exists>rs r. retrieve sample_assistant (ustr ''weather'') None = Inr rs
        \<and> highest_score rs = 6/25 \<and> 6/25 < SIMILARITY_THRESHOLD
        \<and> ask sample_assistant (ustr ''weather'') = Inr r \<and> max_score r = 0"
proof -
  let ?w = "[with_score (sample_meta ! 0) (6/25), with_score (sample_meta ! 2) (1/5),
          with_score (sample_meta ! 1) (1/10), with_score (sample_meta ! 3) (1/20),
          with_score (sample_meta ! 4) 0]"
  have low: "highest_score ?w < SIMILARITY_THRESHOLD"
    using highest_weather by (simp add: SIMILARITY_THRESHOLD_def)
  obtain r where "ask sample_assistant (ustr ''weather'') = Inr r" "max_score r = 0"
    using declined_reports_zero [OF sample_retrieve_weather low] by blast
  with sample_retrieve_weather highest_weather show ?thesis
    by (simp add: SIMILARITY_THRESHOLD_def) 
qed

section \<open>Retrieval beyond the corpus size\<close>

lemma join_hits_length: "join_hits meta hits = Inr rs \<Longrightarrow> length rs = length hits"
  by (induction hits arbitrary: rs) (auto split: sum.splits)

lemma faiss_search_length: "faiss_search ranking k = Inr hits \<Longrightarrow> length hits = k"
  by (auto simp: faiss_search_def split: if_splits)

text \<open>Over a flat index retrieval returns as many results as were asked for.\<close>

lemma retrieve_flat_length:
  "retrieve (flat_assistant meta ranking) query (Some k) = Inr rs \<Longrightarrow> length rs = k"
  by (auto simp: retrieve_def flat_assistant_def
           dest: join_hits_length faiss_search_length split: sum.splits)

text \<open>
  C1 at \<open>top_k = 5\<close> over a corpus of two chunks: the flat index fills five slots, and
  the three slots without a row carry the label \<open>-1\<close>, which reads the last metadata
  record. Retrieval returns five results, not two. Over an empty corpus the same call
  raises \<^verbatim>\<open>IndexError\<close>.
\<close>

theorem retrieve_beyond_corpus:
  "length (metadata two_chunk_assistant) = 2
   \<and> retrieve two_chunk_assistant (ustr ''What margins are required?'') (Some 5) =
       Inr [with_score (sample_meta ! 0) (4/5), with_score (sample_meta ! 1) (1/10),
            with_score (sample_meta ! 1) FLT_LOWEST, with_score (sample_meta ! 1) FLT_LOWEST,
            with_score (sample_meta ! 1) FLT_LOWEST]
   \<and> retrieve (flat_assistant [] (\<lambda>query. [])) (ustr ''What margins are required?'') (Some 5) =
       Inl IndexError"
  by (simp add: retrieve_def two_chunk_assistant_def flat_assistant_def faiss_search_def
        sample_meta_def py_getitem_def eval_nat_numeral)

text \<open>
  When the index ranks its rows by descending score, as a flat index does, and no score is
  below the lowest float, retrieval lists its results by descending score, the padded
  slots last.
\<close>

lemma join_hits_scores: "join_hits meta hits = Inr rs \<Longrightarrow> map score rs = map fst hits"
  by (induction hits arbitrary: rs) (auto simp: with_score_def split: sum.splits)

lemma faiss_search_descending:
  assumes "sorted_wrt (\<ge>) (map fst ranking)"
      and "\<forall>x \<in> set ranking. FLT_LOWEST \<le> fst x"
      and "faiss_search ranking k = Inr hits"
  shows "sorted_wrt (\<ge>) (map fst hits)"
proof -
  from assms(3) have hits: "hits = take k ranking @ replicate (k - length ranking) (FLT_LOWEST, - 1)"
    by (auto simp: faiss_search_def split: if_splits)
  from assms(1) have "sorted_wrt (\<lambda>x y. fst y \<le> fst x) ranking"
    by (simp add: sorted_wrt_map)
  then have found: "sorted_wrt (\<lambda>x y. fst y \<le> fst x) (take k ranking)"
    by (rule sorted_wrt_take)
  have low: "\<forall>x \<in> set (take k ranking). FLT_LOWEST \<le> fst x"
    using assms(2) set_take_subset [of k ranking] by blast
  have pad: "sorted_wrt (\<lambda>x y. fst y \<le> fst x) (replicate n (FLT_LOWEST, - 1 :: int))" for n
    by (simp add: sorted_wrt_iff_nth_less)
  have "sorted_wrt (\<lambda>x y. fst y \<le> fst x) hits"
    unfolding hits sorted_wrt_append using found pad low by auto
  then show ?thesis by (simp add: sorted_wrt_map)
qed

lemma flat_retrieve_descending:
  assumes "retrieve (flat_assistant meta ranking) query top_k = Inr rs"
      and "sorted_wrt (\<ge>) (map fst (ranking query))"
      and "\<forall>x \<in> set (ranking query). FLT_LOWEST \<le> fst x"
  shows "sorted_wrt (\<ge>) (map score rs)"
proof -
  from assms(1) obtain k hits where
    "faiss_search (ranking query) k = Inr hits" "join_hits meta hits = Inr rs"
    by (auto simp: retrieve_def flat_assistant_def Let_def split: sum.splits)
  from join_hits_scores [OF this(2)] faiss_search_descending [OF assms(2,3) this(1)]
  show ?thesis by simp
qed

end
